theory Spec2Isabelle
  imports Complex_Main "HOL-Library.Char_ord" "HOL-Library.List_Lexorder"
    "HOL-Library.Product_Lexorder"
begin

section \<open>Python values and exceptions\<close>

text \<open>
  The learner of \<^verbatim>\<open>Core/news_learner.py\<close> is embedded function by function.
  A Python float is modelled by the real number it stands for (its arithmetic
  is the subject of the next section), Python lists are HOL lists, and every
  \<^verbatim>\<open>raise\<close> (and every exception raised by a list operation of the
  interpreter) is a value of the type \<open>error\<close>, returned as \<open>Inl\<close>.
\<close>

datatype error =
  RuntimeError | RuntimeWarning | IndexError | ValueError | AttributeError | SystemExit

section \<open>Floating-point arithmetic\<close>

text \<open>
  Comparisons of floats are comparisons of the reals they stand for; the
  arithmetic on floats is not the arithmetic of the reals, and the model
  takes it as a parameter. \<open>rnd\<close> is the rounding that the machine applies to
  the exact result of every \<^verbatim>\<open>+\<close>, \<^verbatim>\<open>-\<close>, \<^verbatim>\<open>*\<close> and \<^verbatim>\<open>/\<close> on floats and numpy
  arrays. \<open>fsum\<close> is the built-in \<^verbatim>\<open>sum\<close> of a list of floats: a loop of
  rounded additions up to Python 3.11, a compensated summation from Python
  3.12 on. \<open>sums_to_one\<close> is the test of \<^verbatim>\<open>np.random.choice\<close> that its
  probabilities sum to 1 within the tolerance of the numpy release at hand.
  All floats are finite numbers: NaN and the infinities arise in the code
  modelled here from a division by zero, which is modelled where it occurs;
  inputs that are NaN or infinite, and overflow, are left out. A decimal
  literal of an example, such as 0.9, stands for the double nearest to it; the
  examples only compare such numbers, or add them where the outcome of the
  comparison that follows is far from depending on the last digits.
\<close>

record float_arith =
  rnd :: "real \<Rightarrow> real"
  fsum :: "real list \<Rightarrow> real"
  sums_to_one :: "real list \<Rightarrow> bool"

text \<open>
  The multiples of \<^verbatim>\<open>2 ** -52\<close> between 0 and 1. Each of them is a double, and
  so is every sum of such numbers that does not exceed 1, in whatever order it
  is taken.
\<close>

definition dyadic :: "real \<Rightarrow> bool" where
  "dyadic x = (\<exists>m k. k \<le> (52::nat) \<and> m \<le> (2::nat) ^ k \<and> x = real m / 2 ^ k)"

text \<open>
  What the theorems below assume of the arithmetic, and nothing more. Every
  item holds of IEEE 754 double precision with rounding to nearest and of
  every release of Python and numpy: an operation whose exact result is one
  of the doubles above returns it; a sum of such doubles that does not exceed
  1 is exact; the sum of up to \<^verbatim>\<open>2 ** 20\<close> floats between 0 and 1 has a
  relative error of at most \<^verbatim>\<open>2 ** -30\<close>; probabilities that are doubles as
  above and sum to 1 are accepted by \<^verbatim>\<open>np.random.choice\<close>; and probabilities
  that are all 0 are never accepted.
\<close>

definition ieee_double :: "float_arith \<Rightarrow> bool" where
  "ieee_double fa =
     ((\<forall>x. dyadic x \<longrightarrow> rnd fa x = x)
      \<and> (\<forall>xs. list_all dyadic xs \<and> sum_list xs \<le> 1 \<longrightarrow> fsum fa xs = sum_list xs)
      \<and> (\<forall>xs. length xs \<le> 2 ^ 20 \<and> list_all (\<lambda>x. 0 \<le> x \<and> x \<le> 1) xs
             \<longrightarrow> \<bar>fsum fa xs - sum_list xs\<bar> \<le> sum_list xs / 2 ^ 30)
      \<and> (\<forall>p. list_all dyadic p \<and> sum_list p = 1 \<longrightarrow> sums_to_one fa p)
      \<and> (\<forall>p. p \<noteq> [] \<and> list_all (\<lambda>x. x = 0) p \<longrightarrow> \<not> sums_to_one fa p))"

text \<open>The arithmetic that never rounds; it has all the properties above.\<close>

definition exact_arith :: float_arith where
  "exact_arith = \<lparr> rnd = (\<lambda>x. x), fsum = sum_list, sums_to_one = (\<lambda>p. sum_list p = 1) \<rparr>"

section \<open>The state bucket of a user and a news item\<close>

text \<open>
  \<^verbatim>\<open>__compute_position_in_learning_matrix\<close> reads two numbers from the user object
  (\<^verbatim>\<open>get_promenance_cumsum\<close>, \<^verbatim>\<open>get_amount_of_clicks\<close>) and buckets each of
  them with the same code. The loop
  \<^verbatim>\<open>k = 0; while v >= pivots[k]: k += 1\<close> is \<open>pivot_while\<close>; reading
  \<^verbatim>\<open>pivots[k]\<close> beyond the end raises IndexError, as does \<^verbatim>\<open>pivots[-1]\<close> on an
  empty list.
\<close>

function pivot_while :: "real \<Rightarrow> real list \<Rightarrow> nat \<Rightarrow> error + nat" where
  "pivot_while v pivots k =
     (if length pivots \<le> k then Inl IndexError
      else if v \<ge> pivots ! k then pivot_while v pivots (Suc k)
      else Inr k)"
  by pat_completeness auto
termination
  by (relation "measure (\<lambda>(v, pivots, k). length pivots - k)") auto

declare pivot_while.simps [simp del]

definition pivot_position :: "real list \<Rightarrow> real \<Rightarrow> error + nat" where
  "pivot_position pivots v =
     (if pivots = [] then Inl IndexError
      else if v < last pivots then pivot_while v pivots 0
      else Inr (length pivots))"

text \<open>
  The column is computed first, then the row; the pair returned is
  (\<^verbatim>\<open>weighted_beta_matrix_posx\<close>, \<^verbatim>\<open>weighted_beta_matrix_posy\<close>), row first.
\<close>

definition compute_position_in_learning_matrix ::
  "real list \<Rightarrow> real list \<Rightarrow> real \<Rightarrow> real \<Rightarrow> error + (nat \<times> nat)" where
  "compute_position_in_learning_matrix news_column_pivots news_row_pivots
      slot_promenance_cumsum total_num_of_clicks =
     (case pivot_position news_column_pivots slot_promenance_cumsum of
        Inl e \<Rightarrow> Inl e
      | Inr posy \<Rightarrow>
          (case pivot_position news_row_pivots total_num_of_clicks of
             Inl e \<Rightarrow> Inl e
           | Inr posx \<Rightarrow> Inr (posx, posy)))"

text \<open>The two readings of "number of thresholds exceeded".\<close>

definition strictly_exceeded :: "real list \<Rightarrow> real \<Rightarrow> nat" where
  "strictly_exceeded pivots v = length (filter (\<lambda>p. p < v) pivots)"

definition reached :: "real list \<Rightarrow> real \<Rightarrow> nat" where
  "reached pivots v = length (filter (\<lambda>p. p \<le> v) pivots)"

section \<open>Construction of a learner\<close>

text \<open>
  The arguments of \<^verbatim>\<open>NewsLearner.__init__\<close> that the validation and the fields
  below depend on.
\<close>

record config =
  cfg_categories :: "string list"
  cfg_real_slot_promenances :: "real list"
  cfg_news_column_pivot :: "real list"
  cfg_news_row_pivot :: "real list"
  cfg_allocation_approach :: string
  cfg_allocation_diversity_bounds :: "real list"
  cfg_lp_rand_technique :: string
  cfg_ads_real_slot_promenances :: "real list"
  cfg_ads_allocation_approach :: string
  cfg_ads_allocation_technique :: string

text \<open>
  Lines 85-91: the loop over the bounds, raising on the first negative bound
  and adding the others to the running total, one rounded addition each.
\<close>

fun sum_of_bounds :: "float_arith \<Rightarrow> real list \<Rightarrow> real \<Rightarrow> error + real" where
  "sum_of_bounds fa [] total_sum = Inr total_sum"
| "sum_of_bounds fa (bound # rest) total_sum =
     (if bound < 0 then Inl RuntimeError
      else sum_of_bounds fa rest (rnd fa (total_sum + bound)))"

text \<open>
  Lines 95-102: a bound list of the wrong length makes the constructor warn
  and then extend the list with copies of \<^verbatim>\<open>allocation_diversity_bounds[-1]\<close>
  (IndexError on an empty list) or cut it. The boolean says whether
  \<^verbatim>\<open>warnings.warn\<close> was called.
\<close>

definition match_bounds :: "real list \<Rightarrow> nat \<Rightarrow> error + (real list \<times> bool)" where
  "match_bounds bounds ncat =
     (if length bounds \<noteq> ncat then
        (if length bounds < ncat then
           (if bounds = [] then Inl IndexError
            else Inr (bounds @ replicate (ncat - length bounds) (last bounds), True))
         else Inr (take ncat bounds, True))
      else Inr (bounds, False))"

text \<open>Lines 104-106: every news and ads slot prominence must lie in [0, 1].\<close>

fun check_prominences :: "real list \<Rightarrow> error + unit" where
  "check_prominences [] = Inr ()"
| "check_prominences (prominence # rest) =
     (if prominence > 1 \<or> prominence < 0 then Inl RuntimeError
      else check_prominences rest)"

text \<open>
  A News object: its identity is its \<^verbatim>\<open>news_id\<close>; the category is fixed at
  creation. The attribute \<^verbatim>\<open>sampled_quality\<close>, which the learner overwrites
  at every allocation round, is kept in a store indexed by the identity, so
  that two entries of a pool that are the same object share it. An Ad carries
  its category and its competitor-exclusion flag.
\<close>

record news =
  news_id :: nat
  news_category :: string

record ad =
  ad_id :: nat
  ad_category :: string
  exclude_competitors :: bool

text \<open>
  The fields of the learner that the operations below read or write. \<open>B\<close> is
  the right-hand side of the news LP and \<open>draws\<close> the number of random
  samples taken so far from the reward model. \<open>sampled_quality\<close> and \<open>buyer\<close>
  hold the attribute \<^verbatim>\<open>sampled_quality\<close> of the News objects and the buyer
  flag of the Ad objects, by identity.
\<close>

record learner =
  categories :: "string list"
  real_slot_promenances :: "real list"
  ads_real_slot_promenances :: "real list"
  layout_slots :: nat
  ads_slots :: nat
  news_row_pivots :: "real list"
  news_column_pivots :: "real list"
  allocation_approach :: string
  lp_rand_tech :: string
  ads_allocation_approach :: string
  ads_allocation_technique :: string
  B :: "real list"
  news_pool :: "news list"
  ads_pool :: "ad list"
  ads_per_category :: "ad list list list"
  news_per_category :: "nat list"
  sampled_quality :: "nat \<Rightarrow> real"
  buyer :: "nat \<Rightarrow> bool"
  draws :: nat

definition new_learner :: "config \<Rightarrow> real list \<Rightarrow> learner" where
  "new_learner c bounds =
     \<lparr> categories = cfg_categories c,
       real_slot_promenances = cfg_real_slot_promenances c,
       ads_real_slot_promenances = cfg_ads_real_slot_promenances c,
       layout_slots = length (cfg_real_slot_promenances c),
       ads_slots = length (cfg_ads_real_slot_promenances c),
       news_row_pivots = cfg_news_row_pivot c,
       news_column_pivots = cfg_news_column_pivot c,
       allocation_approach = cfg_allocation_approach c,
       lp_rand_tech = cfg_lp_rand_technique c,
       ads_allocation_approach = cfg_ads_allocation_approach c,
       ads_allocation_technique = cfg_ads_allocation_technique c,
       B = map uminus bounds
           @ replicate (length (cfg_real_slot_promenances c)
                        + length (cfg_categories c) * length (cfg_real_slot_promenances c)) 1,
       news_pool = [],
       ads_pool = [],
       ads_per_category = replicate (length (cfg_categories c)) [[], []],
       news_per_category = replicate (length (cfg_categories c)) 0,
       sampled_quality = (\<lambda>_. 0),
       buyer = (\<lambda>_. False),
       draws = 0 \<rparr>"

text \<open>
  \<^verbatim>\<open>__init__\<close>: the checks in the order of the source, then the fields. The
  total of the bounds is compared with \<^verbatim>\<open>sum(real_slot_promenances)\<close>, both as
  the machine computes them. The result is the learner and whether the length
  warning was emitted.
\<close>

definition init :: "float_arith \<Rightarrow> config \<Rightarrow> error + (learner \<times> bool)" where
  "init fa c =
     (case sum_of_bounds fa (cfg_allocation_diversity_bounds c) 0 of
        Inl e \<Rightarrow> Inl e
      | Inr total_sum_of_bounds \<Rightarrow>
          if total_sum_of_bounds > fsum fa (cfg_real_slot_promenances c) then Inl RuntimeError
          else
            (case match_bounds (cfg_allocation_diversity_bounds c) (length (cfg_categories c)) of
               Inl e \<Rightarrow> Inl e
             | Inr (bounds, warned) \<Rightarrow>
                 (case check_prominences
                         (cfg_real_slot_promenances c @ cfg_ads_real_slot_promenances c) of
                    Inl e \<Rightarrow> Inl e
                  | Inr _ \<Rightarrow> Inr (new_learner c bounds, warned))))"

text \<open>The diversity bounds a learner was built with: the negated head of \<open>B\<close>.\<close>

definition diversity_bounds :: "learner \<Rightarrow> real list" where
  "diversity_bounds s = map uminus (take (length (categories s)) (B s))"

section \<open>Filling the news pool\<close>

text \<open>
  What a caller can put into the list given to \<^verbatim>\<open>fill_news_pool\<close>: a News
  object, an Ad object, or any other Python object.
\<close>

datatype pyobj = News news | Ad ad | Other

text \<open>\<^verbatim>\<open>xs.index(x)\<close>: the first position of \<open>x\<close>, ValueError when absent.\<close>

fun index_from :: "'a list \<Rightarrow> 'a \<Rightarrow> nat \<Rightarrow> nat option" where
  "index_from [] x i = None"
| "index_from (y # ys) x i = (if y = x then Some i else index_from ys x (Suc i))"

definition list_index :: "'a list \<Rightarrow> 'a \<Rightarrow> error + nat" where
  "list_index xs x = (case index_from xs x 0 of None \<Rightarrow> Inl ValueError | Some i \<Rightarrow> Inr i)"






section \<open>Removing ads from the pool\<close>

text \<open>
  Lines 888-890: \<^verbatim>\<open>for i in range(-len(self.ads_pool), 0)\<close> with the negative
  index \<open>i\<close> read and deleted as Python does: position \<open>len + i\<close>, IndexError
  when that is negative. The pool is returned as the loop leaves it.
\<close>

function remove_loop :: "'a list \<Rightarrow> 'a list \<Rightarrow> int \<Rightarrow> (error + unit) \<times> 'a list" where
  "remove_loop pool ads_list i =
     (if 0 \<le> i then (Inr (), pool)
      else if int (length pool) + i < 0 then (Inl IndexError, pool)
      else if pool ! nat (int (length pool) + i) \<in> set ads_list
           then remove_loop (take (nat (int (length pool) + i)) pool
                             @ drop (Suc (nat (int (length pool) + i))) pool) ads_list (i + 1)
      else remove_loop pool ads_list (i + 1))"
  by pat_completeness auto
termination
  by (relation "measure (\<lambda>(pool, ads_list, i). nat (- i))") auto

declare remove_loop.simps [simp del]

text \<open>
  Lines 892-899: the per-category buffers are purged only when the technique
  string is "resLP". \<^verbatim>\<open>list.remove\<close> deletes the first occurrence and
  raises ValueError when there is none.
\<close>

fun purge_buffers ::
  "string list \<Rightarrow> ad list list list \<Rightarrow> ad list \<Rightarrow> (error + unit) \<times> ad list list list" where
  "purge_buffers cats buf [] = (Inr (), buf)"
| "purge_buffers cats buf (a # rest) =
     (case list_index cats (ad_category a) of
        Inl e \<Rightarrow> (Inl e, buf)
      | Inr cat_index \<Rightarrow>
          let ex_index = (if exclude_competitors a then 1 else 0::nat) in
          if length buf \<le> cat_index \<or> length (buf ! cat_index) \<le> ex_index
          then (Inl IndexError, buf)
          else if a \<notin> set (buf ! cat_index ! ex_index) then (Inl ValueError, buf)
          else purge_buffers cats
                 (buf[cat_index := (buf ! cat_index)
                        [ex_index := remove1 a (buf ! cat_index ! ex_index)]]) rest)"

definition remove_ad_from_pool :: "learner \<Rightarrow> ad list \<Rightarrow> (error + unit) \<times> learner" where
  "remove_ad_from_pool s ads_list =
     (case remove_loop (ads_pool s) ads_list (- int (length (ads_pool s))) of
        (Inl e, pool) \<Rightarrow> (Inl e, s\<lparr>ads_pool := pool\<rparr>)
      | (Inr _, pool) \<Rightarrow>
          let s1 = s\<lparr>ads_pool := pool\<rparr> in
          if ads_allocation_technique s1 = ''resLP'' then
            (case purge_buffers (categories s1) (ads_per_category s1) ads_list of
               (r, buf) \<Rightarrow> (r, s1\<lparr>ads_per_category := buf\<rparr>))
          else (Inr (), s1))"

text \<open>
  The technique strings that \<^verbatim>\<open>find_ads_best_allocation\<close> accepts (lines
  655-660); every other string makes it raise RuntimeError.
\<close>

definition accepted_ads_technique :: "string \<Rightarrow> bool" where
  "accepted_ads_technique t = (t = ''LP'' \<or> t = ''res_LP'')"


section \<open>Allocating a page of news\<close>

text \<open>
  The collaborators of \<^verbatim>\<open>find_best_allocation\<close> that live outside the source
  tree are parameters: \<open>beta_sample d cell c\<close> is what
  \<^verbatim>\<open>WeightedBetaDistribution.sample\<close> of the grid cell \<open>cell\<close> returns for
  category \<open>c\<close> when it is the \<open>d\<close>-th random sample taken by the learner;
  \<open>promenance_cumsum\<close> and \<open>amount_of_clicks\<close> are the two getters of the user
  object. The counters of the reward model and the history of the user are
  updated by those classes and are not part of the learner record.
\<close>

record collaborators =
  beta_sample :: "nat \<Rightarrow> nat \<times> nat \<Rightarrow> string \<Rightarrow> real"
  promenance_cumsum :: "news \<Rightarrow> real"
  amount_of_clicks :: "news \<Rightarrow> real"

definition position_of :: "learner \<Rightarrow> collaborators \<Rightarrow> news \<Rightarrow> error + (nat \<times> nat)" where
  "position_of s env n =
     compute_position_in_learning_matrix (news_column_pivots s) (news_row_pivots s)
       (promenance_cumsum env n) (amount_of_clicks env n)"

text \<open>
  \<^verbatim>\<open>sample_quality\<close> on a News object: a sample of the cell of the user and
  the item under interest decay, of the cell (0, 0) otherwise, stored in the
  attribute \<^verbatim>\<open>sampled_quality\<close> of the object.
\<close>

definition sample_quality ::
  "learner \<Rightarrow> collaborators \<Rightarrow> news \<Rightarrow> bool \<Rightarrow> (error + unit) \<times> learner" where
  "sample_quality s env content interest_decay =
     (if interest_decay then
        (case position_of s env content of
           Inl e \<Rightarrow> (Inl e, s)
         | Inr (posx, posy) \<Rightarrow>
             (Inr (), s\<lparr>sampled_quality := (sampled_quality s)
                            (news_id content :=
                               beta_sample env (draws s) (posx, posy) (news_category content)),
                        draws := Suc (draws s)\<rparr>))
      else
        (Inr (), s\<lparr>sampled_quality := (sampled_quality s)
                       (news_id content :=
                          beta_sample env (draws s) (0, 0) (news_category content)),
                   draws := Suc (draws s)\<rparr>))"

text \<open>Lines 475-476: one sample for every entry of the pool, in order.\<close>

fun sample_pool ::
  "collaborators \<Rightarrow> bool \<Rightarrow> news list \<Rightarrow> learner \<Rightarrow> (error + unit) \<times> learner" where
  "sample_pool env interest_decay [] s = (Inr (), s)"
| "sample_pool env interest_decay (n # rest) s =
     (case sample_quality s env n interest_decay of
        (Inl e, s') \<Rightarrow> (Inl e, s')
      | (Inr _, s') \<Rightarrow> sample_pool env interest_decay rest s')"

text \<open>
  \<^verbatim>\<open>list.sort(key=f, reverse=True)\<close> is stable: the list is reversed, sorted
  in ascending order, and reversed again, so that items of equal key keep
  their order.
\<close>

definition py_sort_reverse :: "('a \<Rightarrow> 'k::linorder) \<Rightarrow> 'a list \<Rightarrow> 'a list" where
  "py_sort_reverse f xs = rev (sort_key f (rev xs))"

text \<open>
  \<^verbatim>\<open>np.argmax\<close>: the first position of the largest element; \<open>None\<close> on the
  empty list, where numpy raises ValueError.
\<close>

fun argmax :: "real list \<Rightarrow> nat option" where
  "argmax [] = None"
| "argmax [x] = Some 0"
| "argmax (x # xs) =
     (case argmax xs of
        None \<Rightarrow> Some 0
      | Some j \<Rightarrow> if xs ! j > x then Some (Suc j) else Some 0)"

text \<open>
  Lines 483-487: one iteration per slot. The best remaining slot takes the
  head of the sorted pool copy, and its prominence is overwritten with -1.
  The layout starts as \<^verbatim>\<open>[0] * layout_slots\<close>; the placeholder 0 is \<open>None\<close>.
\<close>

fun standard_loop ::
  "nat \<Rightarrow> 'a list \<Rightarrow> real list \<Rightarrow> 'a option list \<Rightarrow> error + 'a option list" where
  "standard_loop 0 tmp_news_pool slot_promenances result = Inr result"
| "standard_loop (Suc n) tmp_news_pool slot_promenances result =
     (case argmax slot_promenances of
        None \<Rightarrow> Inl ValueError
      | Some target_slot_index \<Rightarrow>
          (case tmp_news_pool of
             [] \<Rightarrow> Inl IndexError
           | assigning_news # rest \<Rightarrow>
               if length result \<le> target_slot_index then Inl IndexError
               else standard_loop n rest (slot_promenances[target_slot_index := -1])
                      (result[target_slot_index := Some assigning_news])))"

text \<open>
  Lines 479-487, the "standard" approach: the pool is sorted in place by
  descending sampled quality, then the slots are served.
\<close>

definition standard_allocation :: "learner \<Rightarrow> (error + news option list) \<times> learner" where
  "standard_allocation s =
     (let s' = s\<lparr>news_pool := py_sort_reverse (\<lambda>x. sampled_quality s (news_id x)) (news_pool s)\<rparr>
      in (standard_loop (length (real_slot_promenances s')) (news_pool s')
            (real_slot_promenances s') (replicate (layout_slots s') None), s'))"

text \<open>
  Lines 500-541: the allocation is reported to the reward model and to the
  user. What can raise in the source is kept: the position of each allocated
  item is computed under interest decay, and a slot still holding the
  placeholder has no News attributes.
\<close>

fun update_assignments ::
  "learner \<Rightarrow> collaborators \<Rightarrow> bool \<Rightarrow> news option list \<Rightarrow> error + unit" where
  "update_assignments s env interest_decay [] = Inr ()"
| "update_assignments s env interest_decay (None # rest) = Inl AttributeError"
| "update_assignments s env interest_decay (Some n # rest) =
     (if interest_decay then
        (case position_of s env n of
           Inl e \<Rightarrow> Inl e
         | Inr _ \<Rightarrow> update_assignments s env interest_decay rest)
      else update_assignments s env interest_decay rest)"

text \<open>
  \<^verbatim>\<open>find_best_allocation\<close>. The three approaches that call an external LP
  solver are the parameter \<open>lp_strategies\<close>.
\<close>

definition find_best_allocation ::
  "learner \<Rightarrow> collaborators \<Rightarrow> (learner \<Rightarrow> (error + news option list) \<times> learner)
   \<Rightarrow> bool \<Rightarrow> bool \<Rightarrow> (error + news option list) \<times> learner" where
  "find_best_allocation s env lp_strategies interest_decay update_assignment_matrices =
     (if length (news_pool s) < layout_slots s then (Inl RuntimeError, s)
      else
        (case (if allocation_approach s \<noteq> ''alt_LP''
               then sample_pool env interest_decay (news_pool s) s
               else (Inr (), s)) of
           (Inl e, s1) \<Rightarrow> (Inl e, s1)
         | (Inr _, s1) \<Rightarrow>
             (case (if allocation_approach s1 = ''standard'' then standard_allocation s1
                    else if allocation_approach s1 = ''LP'' \<or> allocation_approach s1 = ''alt_LP''
                            \<or> allocation_approach s1 = ''full''
                    then lp_strategies s1
                    else (Inl RuntimeError, s1)) of
                (Inl e, s2) \<Rightarrow> (Inl e, s2)
              | (Inr result_news_allocation, s2) \<Rightarrow>
                  if update_assignment_matrices then
                    (case update_assignments s2 env interest_decay result_news_allocation of
                       Inl e \<Rightarrow> (Inl e, s2)
                     | Inr _ \<Rightarrow> (Inr result_news_allocation, s2))
                  else (Inr result_news_allocation, s2))))"

text \<open>
  A configuration is valid for the standard approach when the learner is as
  the constructor leaves it (one layout slot per prominence, prominences in
  [0, 1]) and the pivot lists are not empty.
\<close>

definition valid_learner :: "learner \<Rightarrow> bool" where
  "valid_learner s =
     (layout_slots s = length (real_slot_promenances s)
      \<and> list_all (\<lambda>p. 0 \<le> p \<and> p \<le> 1) (real_slot_promenances s)
      \<and> news_column_pivots s \<noteq> [] \<and> news_row_pivots s \<noteq> [])"

text \<open>
  The slots not yet served by the loop of the standard approach: those whose
  prominence has not been overwritten with -1.
\<close>

definition unvisited :: "real list \<Rightarrow> nat set" where
  "unvisited proms = {i. i < length proms \<and> proms ! i \<noteq> -1}"

text \<open>The fields that sampling the pool leaves as they are.\<close>

definition same_setup :: "learner \<Rightarrow> learner \<Rightarrow> bool" where
  "same_setup s s' =
     (news_pool s' = news_pool s \<and> layout_slots s' = layout_slots s
      \<and> real_slot_promenances s' = real_slot_promenances s
      \<and> allocation_approach s' = allocation_approach s
      \<and> news_column_pivots s' = news_column_pivots s
      \<and> news_row_pivots s' = news_row_pivots s)"

section \<open>Candidate selection of the LP approach\<close>

text \<open>
  Lines 957-971 of \<^verbatim>\<open>__solve_linear_problem\<close>: the pool, sorted by descending
  (category, sampled quality), is scanned once; the first \<open>layout_slots\<close>
  items of each category are kept. On a change of category with fewer items
  kept than slots the source executes \<^verbatim>\<open>raise RuntimeWarning(...)\<close>.
\<close>

fun select_loop ::
  "nat \<Rightarrow> news list \<Rightarrow> news list \<Rightarrow> bool \<Rightarrow> nat \<Rightarrow> string \<Rightarrow> error + news list" where
  "select_loop L [] LP_news_pool done_for_category category_count prev_category =
     Inr LP_news_pool"
| "select_loop L (n # rest) LP_news_pool done_for_category category_count prev_category =
     (if prev_category \<noteq> news_category n \<and> category_count < L then Inl RuntimeWarning
      else
        let changed = (prev_category \<noteq> news_category n);
            count1 = (if changed then 0 else category_count);
            done1 = (if changed then False else done_for_category);
            prev1 = (if changed then news_category n else prev_category);
            pool2 = (if \<not> done1 then LP_news_pool @ [n] else LP_news_pool);
            count2 = (if \<not> done1 then Suc count1 else count1);
            done2 = (if count2 = L then True else done1)
        in select_loop L rest pool2 done2 count2 prev1)"

text \<open>
  Lines 974-977: while the subset is short of \<^verbatim>\<open>len(categories) * layout_slots\<close>
  items, a random item of the pool is drawn and appended unless already
  present. \<open>choice k\<close> is the position drawn at the \<open>k\<close>-th draw (taken modulo
  the length of the pool). The loop need not end: \<open>None\<close> means that it does
  not return.
\<close>

partial_function (option) pad_loop ::
  "(nat \<Rightarrow> nat) \<Rightarrow> nat \<Rightarrow> news list \<Rightarrow> nat \<Rightarrow> news list \<Rightarrow> (error + news list) option" where
  "pad_loop choice k pool target LP_news_pool =
     (if length LP_news_pool < target then
        (if pool = [] then Some (Inl ValueError)
         else if pool ! (choice k mod length pool) \<notin> set LP_news_pool
              then pad_loop choice (Suc k) pool target
                     (LP_news_pool @ [pool ! (choice k mod length pool)])
         else pad_loop choice (Suc k) pool target LP_news_pool)
      else Some (Inr LP_news_pool))"

text \<open>
  Lines 950-977, the subset-building phase: the outcome (an exception or the
  candidate subset) and the learner, whose pool has been sorted in place;
  \<open>None\<close> when the padding loop does not return.
\<close>

definition select_candidates ::
  "learner \<Rightarrow> (nat \<Rightarrow> nat) \<Rightarrow> ((error + news list) \<times> learner) option" where
  "select_candidates s choice =
     (let s' = s\<lparr>news_pool :=
                   py_sort_reverse (\<lambda>x. (news_category x, sampled_quality s (news_id x)))
                     (news_pool s)\<rparr>
      in case news_pool s' of
           [] \<Rightarrow> Some (Inl IndexError, s')
         | first # _ \<Rightarrow>
             (case select_loop (layout_slots s') (news_pool s') [] False 0 (news_category first) of
                Inl e \<Rightarrow> Some (Inl e, s')
              | Inr LP_news_pool \<Rightarrow>
                  (case pad_loop choice 0 (news_pool s')
                          (length (categories s') * layout_slots s') LP_news_pool of
                     None \<Rightarrow> None
                   | Some r \<Rightarrow> Some (r, s'))))"

section \<open>Derandomization of a fractional solution\<close>

text \<open>
  Random choices are made by a chooser: \<open>pick k p\<close> is the position that
  \<^verbatim>\<open>np.random.choice(a, p=p)\<close> picks at the \<open>k\<close>-th draw of a call. numpy
  only ever picks a position of positive probability; a chooser with that
  property is \<open>valid_chooser\<close>.
\<close>

type_synonym chooser = "nat \<Rightarrow> real list \<Rightarrow> nat"

definition valid_chooser :: "chooser \<Rightarrow> bool" where
  "valid_chooser pick =
     (\<forall>k p. (\<forall>x\<in>set p. 0 \<le> x) \<and> (\<exists>x\<in>set p. 0 < x)
        \<longrightarrow> pick k p < length p \<and> 0 < p ! (pick k p))"

text \<open>
  \<^verbatim>\<open>np.array(v) / sum(v)\<close>: every entry is divided by the sum that the
  machine computes, and the quotient is rounded. Dividing by a zero sum gives
  an array of NaN and infinities (or an empty array) and no exception; \<open>None\<close>
  stands for that array, which \<^verbatim>\<open>np.random.choice\<close> then refuses.
\<close>

definition normalize :: "float_arith \<Rightarrow> real list \<Rightarrow> real list option" where
  "normalize fa v =
     (if fsum fa v = 0 then None else Some (map (\<lambda>x. rnd fa (x / fsum fa v)) v))"

text \<open>
  \<^verbatim>\<open>np.random.choice(a, p=p)\<close> raises ValueError on an empty \<open>a\<close>, on a \<open>p\<close>
  of another length, on NaN or negative entries and on a \<open>p\<close> that fails its
  test of summing to 1.
\<close>

definition np_random_choice ::
  "float_arith \<Rightarrow> chooser \<Rightarrow> nat \<Rightarrow> 'a list \<Rightarrow> real list option \<Rightarrow> error + 'a" where
  "np_random_choice fa pick k a p =
     (case p of
        None \<Rightarrow> Inl ValueError
      | Some ps \<Rightarrow>
          if a = [] \<or> length ps \<noteq> length a then Inl ValueError
          else if \<exists>x\<in>set ps. x < 0 then Inl ValueError
          else if \<not> sums_to_one fa ps then Inl ValueError
          else if length a \<le> pick k ps then Inl ValueError
          else Inr (a ! pick k ps))"

text \<open>
  The product of two numpy vectors, every entry rounded: elementwise for equal
  lengths, with a vector of length one broadcast, ValueError (\<open>None\<close>)
  otherwise.
\<close>

definition np_mult :: "float_arith \<Rightarrow> real list \<Rightarrow> real list \<Rightarrow> real list option" where
  "np_mult fa a b =
     (if length a = length b then Some (map (\<lambda>(x, y). rnd fa (x * y)) (zip a b))
      else if length b = 1 then Some (map (\<lambda>x. rnd fa (x * hd b)) a)
      else if length a = 1 then Some (map (\<lambda>y. rnd fa (hd a * y)) b)
      else None)"

text \<open>
  Lines 1450-1454, technique "rand_3": the vector of the target slot is
  multiplied by one minus the vector of every other slot not yet allocated.
  Both the difference and the product are rounded, so that a product of small
  weights can underflow to 0.
\<close>

fun dampen ::
  "float_arith \<Rightarrow> nat list \<Rightarrow> nat \<Rightarrow> real list list \<Rightarrow> nat \<Rightarrow> real list
   \<Rightarrow> error + real list" where
  "dampen fa allocated_slots target_slot [] p v = Inr v"
| "dampen fa allocated_slots target_slot (w # ws) p v =
     (if p \<notin> set allocated_slots \<and> p \<noteq> target_slot then
        (case np_mult fa v (map (\<lambda>x. rnd fa (1 - x)) w) of
           None \<Rightarrow> Inl ValueError
         | Some v' \<Rightarrow> dampen fa allocated_slots target_slot ws (Suc p) v')
      else dampen fa allocated_slots target_slot ws (Suc p) v)"

text \<open>\<^verbatim>\<open>xs.__delitem__(i)\<close> for \<open>i \<ge> 0\<close>, and the same on every slot vector.\<close>

definition delete_at :: "nat \<Rightarrow> 'a list \<Rightarrow> error + 'a list" where
  "delete_at i xs = (if i < length xs then Inr (take i xs @ drop (Suc i) xs) else Inl IndexError)"

fun delete_in_all :: "nat \<Rightarrow> real list list \<Rightarrow> error + real list list" where
  "delete_in_all i [] = Inr []"
| "delete_in_all i (probs # rest) =
     (case delete_at i probs of
        Inl e \<Rightarrow> Inl e
      | Inr probs' \<Rightarrow>
          (case delete_in_all i rest of Inl e \<Rightarrow> Inl e | Inr rest' \<Rightarrow> Inr (probs' # rest')))"

text \<open>
  Lines 1439-1446: the slot to fill next, and the number of the next draw.
  "rand_1" and "rand_3" take the slot of largest remaining prominence;
  any other technique string draws a prominence with probability
  proportional to itself and takes its first position.
\<close>

definition select_slot ::
  "float_arith \<Rightarrow> chooser \<Rightarrow> string \<Rightarrow> nat \<Rightarrow> real list \<Rightarrow> error + (nat \<times> nat)" where
  "select_slot fa pick de_rand_technique k tmp_slot_promenances =
     (if de_rand_technique = ''rand_1'' \<or> de_rand_technique = ''rand_3'' then
        (case argmax tmp_slot_promenances of
           None \<Rightarrow> Inl ValueError
         | Some target_slot \<Rightarrow> Inr (target_slot, k))
      else
        (case np_random_choice fa pick k tmp_slot_promenances
                (normalize fa tmp_slot_promenances) of
           Inl e \<Rightarrow> Inl e
         | Inr target_slot_promenance \<Rightarrow>
             (case list_index tmp_slot_promenances target_slot_promenance of
                Inl e \<Rightarrow> Inl e
              | Inr target_slot \<Rightarrow> Inr (target_slot, Suc k))))"

text \<open>
  Lines 1438-1469, one iteration per layout slot. The arguments after the
  number of the draw are \<^verbatim>\<open>result\<close>, \<^verbatim>\<open>tmp_slot_promenances\<close>,
  \<^verbatim>\<open>feasible_news\<close>, \<^verbatim>\<open>tmp_slots_assignation_probabilities\<close> and
  \<^verbatim>\<open>allocated_slots\<close>.
\<close>

fun de_rand_loop ::
  "float_arith \<Rightarrow> chooser \<Rightarrow> string \<Rightarrow> 'a list \<Rightarrow> nat \<Rightarrow> nat \<Rightarrow> 'a option list \<Rightarrow> real list
   \<Rightarrow> nat list \<Rightarrow> real list list \<Rightarrow> nat list \<Rightarrow> error + 'a option list" where
  "de_rand_loop fa pick tech LP_news_pool 0 k result proms feasible_news probs allocated_slots =
     Inr result"
| "de_rand_loop fa pick tech LP_news_pool (Suc n) k result proms feasible_news probs
     allocated_slots =
     (case select_slot fa pick tech k proms of
        Inl e \<Rightarrow> Inl e
      | Inr (target_slot, k1) \<Rightarrow>
          if length probs \<le> target_slot then Inl IndexError
          else
            (case (if tech = ''rand_3''
                   then dampen fa allocated_slots target_slot probs 0 (probs ! target_slot)
                   else Inr (probs ! target_slot)) of
               Inl e \<Rightarrow> Inl e
             | Inr v \<Rightarrow>
                 (case np_random_choice fa pick k1 feasible_news
                         (map_option (map abs) (normalize fa v)) of
                    Inl e \<Rightarrow> Inl e
                  | Inr selected_news \<Rightarrow>
                      if length LP_news_pool \<le> selected_news \<or> length result \<le> target_slot
                      then Inl IndexError
                      else
                        (case list_index feasible_news selected_news of
                           Inl e \<Rightarrow> Inl e
                         | Inr deletion_index \<Rightarrow>
                             (case delete_in_all deletion_index probs of
                                Inl e \<Rightarrow> Inl e
                              | Inr probs' \<Rightarrow>
                                  de_rand_loop fa pick tech LP_news_pool n (Suc k1)
                                    (result[target_slot := Some (LP_news_pool ! selected_news)])
                                    (proms[target_slot := 0])
                                    (take deletion_index feasible_news
                                     @ drop (Suc deletion_index) feasible_news)
                                    probs'
                                    (if tech = ''rand_3'' then allocated_slots @ [target_slot]
                                     else allocated_slots))))))"

definition de_randomize_LP ::
  "learner \<Rightarrow> float_arith \<Rightarrow> chooser \<Rightarrow> 'a list \<Rightarrow> real list list \<Rightarrow> string
   \<Rightarrow> error + 'a option list" where
  "de_randomize_LP s fa pick LP_news_pool tmp_slots_assignation_probabilities de_rand_technique =
     de_rand_loop fa pick de_rand_technique LP_news_pool (layout_slots s) 0
       (replicate (layout_slots s) None) (real_slot_promenances s)
       [0..<length LP_news_pool] tmp_slots_assignation_probabilities []"

text \<open>A chooser for the examples: the first position of positive probability.\<close>

definition first_positive :: chooser where
  "first_positive k p = length (takeWhile (\<lambda>x. x \<le> 0) p)"

text \<open>
  The slots that the derandomization has not filled yet: those whose remaining
  prominence has not been set to 0.
\<close>

definition unserved :: "real list \<Rightarrow> nat set" where
  "unserved proms = {i. i < length proms \<and> proms ! i \<noteq> 0}"

text \<open>
  The layout that holds, in every slot, the pool item of the candidate number
  recorded for that slot (if any).
\<close>

definition placed :: "'a list \<Rightarrow> nat option list \<Rightarrow> 'a option list" where
  "placed pool cl = map (map_option (\<lambda>c. pool ! c)) cl"

section \<open>The restricted ads problem\<close>

text \<open>
  Lines 306-341 of the constructor build the constraint matrix \<^verbatim>\<open>res_A\<close> and
  the right-hand side \<^verbatim>\<open>res_B\<close> from the number \<open>C\<close> of categories and the
  number \<open>S\<close> of ads slots; they are never changed afterwards. There is one
  variable for every category, exclusion flag (0 or 1) and slot, numbered
  \<open>(2 * c + e) * S + k\<close>. \<^verbatim>\<open>row[a:b] = vals\<close> is \<open>slice_assign\<close>.
\<close>

definition big_M :: int where
  "big_M = 1000"

definition slice_assign :: "nat \<Rightarrow> nat \<Rightarrow> 'a list \<Rightarrow> 'a list \<Rightarrow> 'a list" where
  "slice_assign a b vals row = take a row @ vals @ drop b row"

text \<open>
  Lines 316-323: row \<open>i\<close> has a 1 at the positions \<open>i\<close>, \<open>i + S\<close>, \<open>i + 2S\<close>, ...
\<close>

definition slot_row :: "nat \<Rightarrow> nat \<Rightarrow> nat \<Rightarrow> int list" where
  "slot_row n S i = map (\<lambda>j. if i \<le> j \<and> (j - i) mod S = 0 then 1 else 0) [0..<n]"

text \<open>Lines 325-330: one row for each pair of category and flag.\<close>

definition bucket_row :: "nat \<Rightarrow> nat \<Rightarrow> nat \<Rightarrow> int list" where
  "bucket_row n S b = slice_assign (b * S) (b * S + S) (replicate S 1) (replicate n 0)"

text \<open>
  Lines 333-341: for each category, 1 on its variables and then \<open>1 + M\<close> on
  those of its excluding ads.
\<close>

definition exclusion_row :: "nat \<Rightarrow> nat \<Rightarrow> nat \<Rightarrow> int list" where
  "exclusion_row n S c =
     slice_assign (S + 2 * c * S) (S + 2 * c * S + S) (replicate S (1 + big_M))
       (slice_assign (2 * c * S) (2 * c * S + 2 * S) (replicate (2 * S) 1) (replicate n 0))"

definition res_A :: "nat \<Rightarrow> nat \<Rightarrow> int list list" where
  "res_A C S =
     map (slot_row (2 * (C * S)) S) [0..<S]
     @ map (bucket_row (2 * (C * S)) S) [0..<2 * C]
     @ map (exclusion_row (2 * (C * S)) S) [0..<C]"

definition res_B :: "nat \<Rightarrow> nat \<Rightarrow> int list" where
  "res_B C S = replicate S 1 @ replicate (2 * C) (int S) @ replicate C (1 + big_M)"

definition dot :: "int list \<Rightarrow> int list \<Rightarrow> int" where
  "dot x row = sum_list (map (\<lambda>(a, b). a * b) (zip x row))"

text \<open>
  Lines 1342-1357: what the problem handed to the solver demands of the values
  \<open>x\<close> of the variables. Every variable is an integer between 0 and \<open>S\<close>; row
  \<open>i\<close> of \<^verbatim>\<open>res_A\<close> is bounded by \<^verbatim>\<open>res_B[i]\<close>, for a bucket row also by the
  number of ads in the bucket.
\<close>

definition res_bound :: "learner \<Rightarrow> nat \<Rightarrow> int" where
  "res_bound s i =
     (let S = ads_slots s; C = length (categories s) in
      if S \<le> i \<and> i < S + 2 * C
      then min (res_B C S ! i)
               (int (length (ads_per_category s ! ((i - S) div 2) ! ((i - S) mod 2))))
      else res_B C S ! i)"

definition res_feasible :: "learner \<Rightarrow> int list \<Rightarrow> bool" where
  "res_feasible s x =
     (let S = ads_slots s; C = length (categories s) in
      length x = 2 * (C * S)
      \<and> list_all (\<lambda>v. 0 \<le> v \<and> v \<le> int S) x
      \<and> list_all (\<lambda>i. dot x (res_A C S ! i) \<le> res_bound s i) [0..<S + 3 * C])"

text \<open>
  Lines 1332-1337 and 1347: the objective. \<open>category_samples\<close> holds one Beta
  sample per bucket (1 for an empty bucket); variable \<open>(2 * c + e) * S + k\<close> has
  the coefficient of its bucket times the prominence of slot \<open>k\<close>.
\<close>

definition res_objective :: "learner \<Rightarrow> real list \<Rightarrow> int list \<Rightarrow> real" where
  "res_objective s category_samples x =
     sum_list (map (\<lambda>(v, c). real_of_int v * c)
       (zip x (map (\<lambda>(a, b). a * b)
          (zip (concat (map (replicate (ads_slots s)) category_samples))
               (concat (replicate (2 * length (categories s)) (ads_real_slot_promenances s)))))))"

definition res_optimal :: "learner \<Rightarrow> real list \<Rightarrow> int list \<Rightarrow> bool" where
  "res_optimal s category_samples x =
     (res_feasible s x
      \<and> (\<forall>y. res_feasible s y
            \<longrightarrow> res_objective s category_samples y \<le> res_objective s category_samples x))"

text \<open>
  Lines 1312-1316: the share of prominence of each category in the news page;
  what can raise is an unknown category and a page longer than the layout.
\<close>

fun category_percentages :: "learner \<Rightarrow> news list \<Rightarrow> nat \<Rightarrow> error + unit" where
  "category_percentages s [] i = Inr ()"
| "category_percentages s (n # rest) i =
     (case list_index (categories s) (news_category n) of
        Inl e \<Rightarrow> Inl e
      | Inr _ \<Rightarrow>
          if length (real_slot_promenances s) \<le> i then Inl IndexError
          else category_percentages s rest (Suc i))"

text \<open>
  Lines 1361-1372 and 1376-1382: the variables of slot \<open>i\<close> are those numbered
  \<open>i\<close>, \<open>i + S\<close>, ...; the first of them with a positive value names the
  bucket (category, flag) of the slot. A variable without a value
  (\<^verbatim>\<open>varValue\<close> is \<^verbatim>\<open>None\<close>) is skipped. The variables are taken in the
  order of their creation, which is the order of \<^verbatim>\<open>LP.variables()\<close> as long
  as categories and slots are numbered with one digit.
\<close>

definition slot_variables :: "nat \<Rightarrow> nat \<Rightarrow> nat \<Rightarrow> nat list" where
  "slot_variables n S i = filter (\<lambda>j. i \<le> j \<and> (j - i) mod S = 0) [0..<n]"

definition positive_variable :: "int option list \<Rightarrow> nat list \<Rightarrow> nat option" where
  "positive_variable solution vars =
     find (\<lambda>j. case solution ! j of None \<Rightarrow> False | Some v \<Rightarrow> 0 < v) vars"

text \<open>
  Lines 1375-1404, one iteration per ads slot. \<open>var_name\<close> is the local
  variable of that name: it is assigned only when a positive variable is
  found and keeps its value from one iteration to the next; while it is
  unbound the method prints a message and exits. \<open>pick k\<close> is the position
  drawn by the \<open>k\<close>-th \<^verbatim>\<open>np.random.choice\<close> on a bucket (taken modulo its
  length); an empty bucket makes it raise ValueError. The loop
  \<^verbatim>\<open>while assigning_news not in result\<close> stores the ad once and stops.
\<close>

fun res_fill_loop ::
  "learner \<Rightarrow> int option list \<Rightarrow> (nat \<Rightarrow> nat) \<Rightarrow> nat list \<Rightarrow> nat \<Rightarrow> (nat \<times> nat) option
   \<Rightarrow> ad option list \<Rightarrow> error + ad option list" where
  "res_fill_loop s solution pick [] k var_name result = Inr result"
| "res_fill_loop s solution pick (i # rest) k var_name result =
     (let S = ads_slots s;
          var_name' =
            (case positive_variable solution (slot_variables (length solution) S i) of
               Some j \<Rightarrow> Some (j div (2 * S), (j div S) mod 2)
             | None \<Rightarrow> var_name)
      in case var_name' of
           None \<Rightarrow> Inl SystemExit
         | Some (category_index, ex_index) \<Rightarrow>
             if length (ads_per_category s) \<le> category_index
                \<or> length (ads_per_category s ! category_index) \<le> ex_index
             then Inl IndexError
             else if ads_per_category s ! category_index ! ex_index = [] then Inl ValueError
             else
               let bucket = ads_per_category s ! category_index ! ex_index;
                   assigning_news = bucket ! (pick k mod length bucket)
               in res_fill_loop s solution pick rest (Suc k) var_name'
                    (if Some assigning_news \<notin> set result
                     then result[i := Some assigning_news] else result))"

text \<open>
  \<^verbatim>\<open>__solve_ads_restricted_linear_problem\<close>, with the values returned by the
  external solver as the argument \<open>solution\<close>. The slots left at the
  placeholder are dropped from the result.
\<close>

definition solve_ads_restricted_linear_problem ::
  "learner \<Rightarrow> int option list \<Rightarrow> (nat \<Rightarrow> nat) \<Rightarrow> news list \<Rightarrow> error + ad list" where
  "solve_ads_restricted_linear_problem s solution pick news_allocation =
     (case category_percentages s news_allocation 0 of
        Inl e \<Rightarrow> Inl e
      | Inr _ \<Rightarrow>
          (case res_fill_loop s solution pick [0..<ads_slots s] 0 None
                  (replicate (ads_slots s) None) of
             Inl e \<Rightarrow> Inl e
           | Inr result \<Rightarrow> Inr (map the (filter (\<lambda>elem. elem \<noteq> None) result))))"

text \<open>
  Lines 664-692, the display filter. \<open>coin k\<close> is the outcome of the \<open>k\<close>-th
  \<^verbatim>\<open>np.random.binomial\<close> draw. Under "pdda" and "wpdda" an ad that is
  not yet a buyer is shown when the coin says so and is marked as buyer
  otherwise; a buyer is always shown. Every ad shown is removed from the pool.
\<close>

fun display_loop ::
  "(nat \<Rightarrow> bool) \<Rightarrow> ad list \<Rightarrow> nat \<Rightarrow> ad list \<Rightarrow> learner \<Rightarrow> (error + ad list) \<times> learner" where
  "display_loop coin [] k final_ads_allocation s = (Inr final_ads_allocation, s)"
| "display_loop coin (a # rest) k final_ads_allocation s =
     (if \<not> buyer s (ad_id a) then
        (if coin k then
           (case remove_ad_from_pool s [a] of
              (Inl e, s') \<Rightarrow> (Inl e, s')
            | (Inr _, s') \<Rightarrow> display_loop coin rest (Suc k) (final_ads_allocation @ [a]) s')
         else display_loop coin rest (Suc k) final_ads_allocation
                (s\<lparr>buyer := (buyer s)(ad_id a := True)\<rparr>))
      else
        (case remove_ad_from_pool s [a] of
           (Inl e, s') \<Rightarrow> (Inl e, s')
         | (Inr _, s') \<Rightarrow> display_loop coin rest k (final_ads_allocation @ [a]) s'))"

text \<open>
  \<^verbatim>\<open>find_ads_best_allocation\<close>. The technique "LP" solves the full integer
  problem with the external solver and is the parameter \<open>full_ilp\<close>.
\<close>

definition find_ads_best_allocation ::
  "learner \<Rightarrow> (learner \<Rightarrow> error + ad list) \<Rightarrow> int option list \<Rightarrow> (nat \<Rightarrow> nat) \<Rightarrow> (nat \<Rightarrow> bool)
   \<Rightarrow> news list \<Rightarrow> (error + ad list) \<times> learner" where
  "find_ads_best_allocation s full_ilp solution pick coin news_allocation =
     (if length (ads_pool s) < ads_slots s then (Inl RuntimeError, s)
      else
        (case (if ads_allocation_technique s = ''LP'' then full_ilp s
               else if ads_allocation_technique s = ''res_LP''
               then solve_ads_restricted_linear_problem s solution pick news_allocation
               else Inl RuntimeError) of
           Inl e \<Rightarrow> (Inl e, s)
         | Inr ads_allocation \<Rightarrow>
             if ads_allocation_approach s = ''pdda'' then display_loop coin ads_allocation 0 [] s
             else if ads_allocation_approach s = ''greedy'' then
               (case remove_ad_from_pool s ads_allocation of
                  (Inl e, s') \<Rightarrow> (Inl e, s')
                | (Inr _, s') \<Rightarrow> (Inr ads_allocation, s'))
             else if ads_allocation_approach s = ''wpdda'' then
               display_loop coin ads_allocation 0 [] s
             else (Inl RuntimeError, s)))"

text \<open>Two ads of a layout are competitors that exclude each other.\<close>

definition competing :: "ad \<Rightarrow> ad \<Rightarrow> bool" where
  "competing a b =
     (a \<noteq> b \<and> ad_category a = ad_category b \<and> exclude_competitors a \<and> exclude_competitors b)"

section \<open>Example configurations\<close>

text \<open>
  A configuration with two categories, two news slots of prominences 0.9 and
  0.5, and zero diversity bounds; the examples below vary it.
\<close>

definition base_config :: config where
  "base_config =
     \<lparr> cfg_categories = [''a'', ''b''],
       cfg_real_slot_promenances = [0.9, 0.5],
       cfg_news_column_pivot = [0.01, 1],
       cfg_news_row_pivot = [1],
       cfg_allocation_approach = ''standard'',
       cfg_allocation_diversity_bounds = [0, 0],
       cfg_lp_rand_technique = ''rand_1'',
       cfg_ads_real_slot_promenances = [0.9, 0.8],
       cfg_ads_allocation_approach = ''greedy'',
       cfg_ads_allocation_technique = ''res_LP'' \<rparr>"

text \<open>
  Two ads of category "a" that both exclude competitors, and a learner
  using the restricted ads problem whose pool and buffers hold them.
\<close>

definition ad_e1 :: ad where
  "ad_e1 = \<lparr> ad_id = 1, ad_category = ''a'', exclude_competitors = True \<rparr>"

definition ad_e2 :: ad where
  "ad_e2 = \<lparr> ad_id = 2, ad_category = ''a'', exclude_competitors = True \<rparr>"

definition ads_example_learner :: learner where
  "ads_example_learner =
     (new_learner base_config [0, 0])
       \<lparr> ads_pool := [ad_e1, ad_e2, ad_e1],
         ads_per_category := [[[], [ad_e1, ad_e2]], [[], []]] \<rparr>"

text \<open>
  Four news items, A and B of category "a", C and D of category "b",
  and a reward model whose first four samples are 0.9, 0.8, 0.2 and 0.1.
\<close>

definition news_A :: news where "news_A = \<lparr> news_id = 0, news_category = ''a'' \<rparr>"
definition news_B :: news where "news_B = \<lparr> news_id = 1, news_category = ''a'' \<rparr>"
definition news_C :: news where "news_C = \<lparr> news_id = 2, news_category = ''b'' \<rparr>"
definition news_D :: news where "news_D = \<lparr> news_id = 3, news_category = ''b'' \<rparr>"

definition example_env :: collaborators where
  "example_env =
     \<lparr> beta_sample = (\<lambda>d cell c. if d < 4 then [0.9, 0.8, 0.2, 0.1] ! d else 0.5),
       promenance_cumsum = (\<lambda>n. 0),
       amount_of_clicks = (\<lambda>n. 0) \<rparr>"

definition no_lp :: "learner \<Rightarrow> (error + news option list) \<times> learner" where
  "no_lp s = (Inl RuntimeError, s)"

definition example_learner :: learner where
  "example_learner =
     (new_learner base_config [0, 0])\<lparr>news_pool := [news_A, news_B, news_C, news_D]\<rparr>"



text \<open>
  Learners with the pool [A] (too short for two slots) and [A, A, B] (two
  distinct items for two slots, one of them pooled twice), the example learner
  with two slots of the same prominence 1, and the example learner after two
  different sampling rounds that agree on the four pooled items.
\<close>

definition short_learner :: learner where
  "short_learner = (new_learner base_config [0, 0])\<lparr>news_pool := [news_A]\<rparr>"

definition dup_learner :: learner where
  "dup_learner = (new_learner base_config [0, 0])\<lparr>news_pool := [news_A, news_A, news_B]\<rparr>"

definition tied_slots_learner :: learner where
  "tied_slots_learner =
     (new_learner (base_config\<lparr>cfg_real_slot_promenances := [1, 1]\<rparr>) [0, 0])
       \<lparr>news_pool := [news_A, news_B, news_C, news_D]\<rparr>"

definition sampled_learner :: learner where
  "sampled_learner =
     example_learner
       \<lparr>sampled_quality := (\<lambda>i. if i < 4 then [0.9, 0.8, 0.2, 0.1] ! i else 0.7), draws := 4\<rparr>"

definition resampled_learner :: learner where
  "resampled_learner =
     example_learner
       \<lparr>sampled_quality := (\<lambda>i. if i < 4 then [0.9, 0.8, 0.2, 0.1] ! i else 0.3), draws := 8\<rparr>"

text \<open>A source of random positions that always draws position 0.\<close>

definition first_draw :: "nat \<Rightarrow> nat" where
  "first_draw k = 0"

text \<open>
  Learners of the "LP" approach with two slots: one whose pool has a single
  item of category "b", one whose pool has a single item of category
  "a".
\<close>

definition short_category_learner :: learner where
  "short_category_learner =
     (new_learner (base_config\<lparr>cfg_allocation_approach := ''LP''\<rparr>) [0, 0])
       \<lparr>news_pool := [news_A, news_B, news_C]\<rparr>"

definition last_category_short_learner :: learner where
  "last_category_short_learner =
     (new_learner (base_config\<lparr>cfg_allocation_approach := ''LP''\<rparr>) [0, 0])
       \<lparr>news_pool := [news_A, news_C, news_D]\<rparr>"

text \<open>A learner with three news slots of prominences 0.9, 0.8 and 0.7.\<close>

definition three_slot_learner :: learner where
  "three_slot_learner =
     new_learner (base_config\<lparr>cfg_real_slot_promenances := [0.9, 0.8, 0.7]\<rparr>) [0, 0]"

text \<open>
  A learner of the restricted ads problem with two ads slots of prominences
  0.9 and 0.8 whose pool and buffers hold the two excluding ads of category
  "a"; the values of the eight variables in which only the variable of
  category "a", flag 1 and slot 0 is 1; a source of random positions that
  draws position \<open>k\<close> at the \<open>k\<close>-th draw.
\<close>

definition competitors_learner :: learner where
  "competitors_learner =
     (new_learner base_config [0, 0])
       \<lparr> ads_pool := [ad_e1, ad_e2],
         ads_per_category := [[[], [ad_e1, ad_e2]], [[], []]] \<rparr>"

definition one_slot_solution :: "int list" where
  "one_slot_solution = [0, 0, 1, 0, 0, 0, 0, 0]"

definition pick_in_turn :: "nat \<Rightarrow> nat" where
  "pick_in_turn k = k"

definition always_shown :: "nat \<Rightarrow> bool" where
  "always_shown k = True"

definition no_full_ilp :: "learner \<Rightarrow> error + ad list" where
  "no_full_ilp s = Inl RuntimeError"

section \<open>Facts about the arithmetic\<close>

lemma dyadic_0: "dyadic 0"
  unfolding dyadic_def by (intro exI [of _ 0]) simp

lemma dyadic_1: "dyadic 1"
  unfolding dyadic_def by (intro exI [of _ 1] exI [of _ 0]) simp

lemma dyadic_half: "dyadic (1 / 2)"
  unfolding dyadic_def by (intro exI [of _ 1]) simp

lemma dyadic_quarter: "dyadic (1 / 4)"
  unfolding dyadic_def by (intro exI [of _ 1] exI [of _ 2]) simp

lemmas dyadic_simps = dyadic_0 dyadic_1 dyadic_half dyadic_quarter

lemma sum_list_nonneg_real: "\<forall>x\<in>set p. 0 \<le> x \<Longrightarrow> 0 \<le> sum_list (p :: real list)"
  by (induction p) auto

lemma sum_list_all_zero: "list_all (\<lambda>x. x = 0) p \<Longrightarrow> sum_list (p :: real list) = 0"
  by (induction p) auto

lemma ieee_double_exact: "ieee_double exact_arith"
proof -
  have "\<bar>sum_list xs - sum_list xs\<bar> \<le> sum_list xs / 2 ^ 30"
    if "list_all (\<lambda>x. 0 \<le> x \<and> x \<le> 1) xs" for xs :: "real list"
  proof -
    from that have "\<forall>x\<in>set xs. 0 \<le> x" by (simp add: list_all_iff)
    then have "0 \<le> sum_list xs" by (rule sum_list_nonneg_real)
    then show ?thesis by simp
  qed
  moreover have "sum_list p \<noteq> 1" if "list_all (\<lambda>x. x = 0) p" for p :: "real list"
    using sum_list_all_zero [OF that] by simp
  ultimately show ?thesis by (simp add: ieee_double_def exact_arith_def)
qed

lemma ieee_rnd: "ieee_double fa \<Longrightarrow> dyadic x \<Longrightarrow> rnd fa x = x"
  by (simp add: ieee_double_def)

lemma ieee_fsum:
  "ieee_double fa \<Longrightarrow> list_all dyadic xs \<Longrightarrow> sum_list xs \<le> 1 \<Longrightarrow> fsum fa xs = sum_list xs"
  by (simp add: ieee_double_def)

lemma ieee_fsum_near:
  "ieee_double fa \<Longrightarrow> length xs \<le> 2 ^ 20 \<Longrightarrow> list_all (\<lambda>x. 0 \<le> x \<and> x \<le> 1) xs
   \<Longrightarrow> \<bar>fsum fa xs - sum_list xs\<bar> \<le> sum_list xs / 2 ^ 30"
  by (simp add: ieee_double_def)

lemma ieee_accepts:
  "ieee_double fa \<Longrightarrow> list_all dyadic p \<Longrightarrow> sum_list p = 1 \<Longrightarrow> sums_to_one fa p"
  by (simp add: ieee_double_def)

lemma ieee_refuses:
  "ieee_double fa \<Longrightarrow> p \<noteq> [] \<Longrightarrow> list_all (\<lambda>x. x = 0) p \<Longrightarrow> \<not> sums_to_one fa p"
  by (simp add: ieee_double_def)

lemma fsum_base_slots:
  assumes "ieee_double fa"
  shows "1 \<le> fsum fa [0.9, 0.5]"
proof -
  have "\<bar>fsum fa [0.9, 0.5] - sum_list [0.9, 0.5]\<bar> \<le> sum_list [0.9, 0.5 :: real] / 2 ^ 30"
    by (rule ieee_fsum_near [OF assms]) simp_all
  then have "\<bar>fsum fa [0.9, 0.5] - 7 / 5\<bar> \<le> 7 / 5 / 2 ^ 30" by simp
  moreover have "(7 / 5 :: real) / 2 ^ 30 \<le> 2 / 5" by simp
  ultimately show ?thesis by linarith
qed

section \<open>The state bucket counts the pivots reached\<close>

lemma takeWhile_filter_sorted:
  "sorted ps \<Longrightarrow> takeWhile (\<lambda>p. p \<le> (v::real)) ps = filter (\<lambda>p. p \<le> v) ps"
proof (induction ps)
  case Nil then show ?case by simp
next
  case (Cons p ps)
  show ?case
  proof (cases "p \<le> v")
    case True with Cons show ?thesis by simp
  next
    case False
    with Cons.prems have "\<forall>q\<in>set ps. \<not> q \<le> v" by auto
    then have "filter (\<lambda>p. p \<le> v) ps = []" by (simp add: filter_empty_conv)
    with False show ?thesis by simp
  qed
qed

lemma pivot_while_takeWhile:
  "k \<le> length ps \<Longrightarrow> \<exists>p\<in>set (drop k ps). v < p \<Longrightarrow>
   pivot_while v ps k = Inr (k + length (takeWhile (\<lambda>p. p \<le> v) (drop k ps)))"
proof (induction v ps k rule: pivot_while.induct)
  case (1 v pivots k)
  have lt: "k < length pivots"
  proof (rule ccontr)
    assume "\<not> k < length pivots"
    then have "drop k pivots = []" by simp
    with "1.prems"(2) show False by simp
  qed
  then have dr: "drop k pivots = pivots ! k # drop (Suc k) pivots"
    by (simp add: Cons_nth_drop_Suc)
  show ?case
  proof (cases "pivots ! k \<le> v")
    case True
    from "1.prems"(2) dr True have ex: "\<exists>p\<in>set (drop (Suc k) pivots). v < p" by auto
    have "pivot_while v pivots (Suc k)
          = Inr (Suc k + length (takeWhile (\<lambda>p. p \<le> v) (drop (Suc k) pivots)))"
      using "1.IH" lt True ex by simp
    then show ?thesis
      using True lt dr by (subst pivot_while.simps) simp
  next
    case False
    then show ?thesis
      using lt dr by (subst pivot_while.simps) simp
  qed
qed

lemma sorted_le_last: "sorted ps \<Longrightarrow> p \<in> set ps \<Longrightarrow> p \<le> last (ps :: real list)"
  by (induction ps) auto

lemma pivot_position_reached:
  assumes "pivots \<noteq> []" "sorted pivots"
  shows "pivot_position pivots v = Inr (reached pivots v)"
proof (cases "v < last pivots")
  case True
  with assms have "\<exists>p\<in>set (drop 0 pivots). v < p" by auto
  then have "pivot_while v pivots 0 = Inr (0 + length (takeWhile (\<lambda>p. p \<le> v) (drop 0 pivots)))"
    by (intro pivot_while_takeWhile) simp_all
  with True assms show ?thesis
    by (simp add: pivot_position_def reached_def takeWhile_filter_sorted)
next
  case False
  have "\<forall>p\<in>set pivots. p \<le> v"
  proof
    fix p assume "p \<in> set pivots"
    with assms have "p \<le> last pivots" by (simp add: sorted_le_last)
    with False show "p \<le> v" by simp
  qed
  then have "filter (\<lambda>p. p \<le> v) pivots = pivots" by simp
  with False assms show ?thesis by (simp add: pivot_position_def reached_def)
qed

text \<open>
  Claim C5, as amended. For non-empty, ascending pivot lists the cell is
  (row, column) where the column is the number of column pivots that the
  cumulative prominence has reached or exceeded (\<open>pivot \<le> value\<close>) and the
  row is the number of row pivots that the click count has reached or
  exceeded: a value equal to a pivot counts that pivot.
\<close>

theorem position_is_reached_count:
  assumes "cps \<noteq> []" "sorted cps"
      and "rps \<noteq> []" "sorted rps"
  shows "compute_position_in_learning_matrix cps rps cumsum clicks
         = Inr (reached rps clicks, reached cps cumsum)"
  using assms by (simp add: compute_position_in_learning_matrix_def pivot_position_reached)

text \<open>
  Claim C5, an instance: with the default pivots, cumulative prominence 0.01
  (equal to the first column pivot) and one click (equal to the row pivot)
  select cell (1, 1).
\<close>

theorem position_is_reached_count_witness:
  "compute_position_in_learning_matrix [0.01, 1] [1] 0.01 1 = Inr (1, 1)"
  using position_is_reached_count [of "[0.01, 1]" "[1]" "0.01" 1]
  by (simp add: reached_def)

text \<open>
  Claim C5 as stated fails: with column pivots [0.01, 1] a cumulative
  prominence of exactly 0.01 strictly exceeds no pivot, yet the code selects
  column 1.
\<close>

theorem position_not_strict_count:
  "compute_position_in_learning_matrix [0.01, 1] [1] 0.01 0
   \<noteq> Inr (strictly_exceeded [1] 0, strictly_exceeded [0.01, 1] 0.01)"
  by (simp add: compute_position_in_learning_matrix_def pivot_position_def
      pivot_while.simps strictly_exceeded_def)

section \<open>Validation in the constructor\<close>

lemma sum_of_bounds_Inr:
  "sum_of_bounds fa bounds acc = Inr t
   \<longleftrightarrow> (\<forall>b\<in>set bounds. 0 \<le> b) \<and> t = foldl (\<lambda>a b. rnd fa (a + b)) acc bounds"
  by (induction bounds arbitrary: acc) (auto simp: not_less)

lemma sum_of_bounds_Inl:
  "sum_of_bounds fa bounds acc = Inl e \<longleftrightarrow> (\<exists>b\<in>set bounds. b < 0) \<and> e = RuntimeError"
  by (induction bounds arbitrary: acc) auto

lemma check_prominences_Inr:
  "check_prominences ps = Inr u \<longleftrightarrow> (\<forall>p\<in>set ps. 0 \<le> p \<and> p \<le> 1)"
  by (induction ps) (auto simp: not_less)

lemma check_prominences_Inl:
  "check_prominences ps = Inl e \<longleftrightarrow> (\<exists>p\<in>set ps. p < 0 \<or> 1 < p) \<and> e = RuntimeError"
  by (induction ps) auto

lemma init_negative_bound:
  "\<exists>b\<in>set (cfg_allocation_diversity_bounds c). b < 0 \<Longrightarrow> init fa c = Inl RuntimeError"
proof -
  assume "\<exists>b\<in>set (cfg_allocation_diversity_bounds c). b < 0"
  then have "sum_of_bounds fa (cfg_allocation_diversity_bounds c) 0 = Inl RuntimeError"
    by (simp add: sum_of_bounds_Inl)
  then show ?thesis by (simp add: init_def)
qed

text \<open>
  The second check, on the numbers the machine computes: the running total of
  the bounds against \<^verbatim>\<open>sum(real_slot_promenances)\<close>.
\<close>

lemma init_bounds_exceed:
  assumes "foldl (\<lambda>a b. rnd fa (a + b)) 0 (cfg_allocation_diversity_bounds c)
           > fsum fa (cfg_real_slot_promenances c)"
  shows "init fa c = Inl RuntimeError"
proof (cases "sum_of_bounds fa (cfg_allocation_diversity_bounds c) 0")
  case (Inl e)
  then have "e = RuntimeError" by (simp add: sum_of_bounds_Inl)
  with Inl show ?thesis by (simp add: init_def)
next
  case (Inr t)
  then have "t = foldl (\<lambda>a b. rnd fa (a + b)) 0 (cfg_allocation_diversity_bounds c)"
    by (simp add: sum_of_bounds_Inr)
  with Inr assms show ?thesis by (simp add: init_def)
qed

lemma init_prominence_out_of_range:
  assumes "\<exists>p\<in>set (cfg_real_slot_promenances c) \<union> set (cfg_ads_real_slot_promenances c). p < 0 \<or> 1 < p"
  shows "\<exists>e. init fa c = Inl e"
proof -
  from assms have "check_prominences (cfg_real_slot_promenances c @ cfg_ads_real_slot_promenances c)
        = Inl RuntimeError"
    by (simp add: check_prominences_Inl)
  then show ?thesis
    by (auto simp add: init_def split: sum.splits prod.splits)
qed

lemma init_length_mismatch:
  assumes "\<forall>b\<in>set (cfg_allocation_diversity_bounds c). 0 \<le> b"
      and "foldl (\<lambda>a b. rnd fa (a + b)) 0 (cfg_allocation_diversity_bounds c)
           \<le> fsum fa (cfg_real_slot_promenances c)"
      and "\<forall>p\<in>set (cfg_real_slot_promenances c) \<union> set (cfg_ads_real_slot_promenances c). 0 \<le> p \<and> p \<le> 1"
      and "length (cfg_allocation_diversity_bounds c) \<noteq> length (cfg_categories c)"
      and "cfg_allocation_diversity_bounds c \<noteq> []"
  shows "init fa c = Inr (new_learner c
           (if length (cfg_allocation_diversity_bounds c) < length (cfg_categories c)
            then cfg_allocation_diversity_bounds c
                 @ replicate (length (cfg_categories c) - length (cfg_allocation_diversity_bounds c))
                     (last (cfg_allocation_diversity_bounds c))
            else take (length (cfg_categories c)) (cfg_allocation_diversity_bounds c)), True)"
proof -
  have 1: "sum_of_bounds fa (cfg_allocation_diversity_bounds c) 0
           = Inr (foldl (\<lambda>a b. rnd fa (a + b)) 0 (cfg_allocation_diversity_bounds c))"
    using assms(1) by (simp add: sum_of_bounds_Inr)
  have 2: "check_prominences (cfg_real_slot_promenances c @ cfg_ads_real_slot_promenances c) = Inr ()"
    using assms(3) by (simp add: check_prominences_Inr)
  show ?thesis
    using assms(2,4,5) by (simp add: init_def 1 2 match_bounds_def)
qed

text \<open>
  Claim C4, at the input where the code departs from it: one category and an
  empty list of diversity bounds, with the news slots [0.9, 0.5] and the ads
  slots [0.9, 0.8]. The total of the bounds is 0 and does not exceed the sum
  of the slot prominences, whatever the rounding. The lengths differ, the
  warning promises an extension, and reading the last bound of the empty list
  raises IndexError, so the construction is aborted.
\<close>

theorem init_empty_bounds_raises:
  "ieee_double fa \<Longrightarrow>
   init fa (base_config\<lparr>cfg_categories := [''a''], cfg_allocation_diversity_bounds := []\<rparr>)
   = Inl IndexError"
proof -
  assume "ieee_double fa"
  then have "1 \<le> fsum fa [0.9, 0.5]" by (rule fsum_base_slots)
  then have "\<not> 0 > fsum fa [0.9, 0.5]" by simp
  then show ?thesis by (simp add: init_def base_config_def match_bounds_def)
qed

text \<open>Claim C4, the same input under the arithmetic that never rounds.\<close>

theorem init_empty_bounds_raises_witness:
  "init exact_arith (base_config\<lparr>cfg_categories := [''a''], cfg_allocation_diversity_bounds := []\<rparr>)
   = Inl IndexError"
  using init_empty_bounds_raises [of exact_arith] ieee_double_exact by simp

lemma diversity_bounds_new_learner:
  "length bounds = length (cfg_categories c) \<Longrightarrow> diversity_bounds (new_learner c bounds) = bounds"
  by (simp add: diversity_bounds_def new_learner_def comp_def)

lemma init_single_bound:
  assumes "ieee_double fa"
  shows "init fa (base_config\<lparr>cfg_allocation_diversity_bounds := [1]\<rparr>)
         = Inr (new_learner (base_config\<lparr>cfg_allocation_diversity_bounds := [1]\<rparr>) [1, 1], True)"
proof -
  have "1 \<le> fsum fa [0.9, 0.5]" using assms by (rule fsum_base_slots)
  then have "\<not> 1 > fsum fa [0.9, 0.5]" by simp
  moreover have "rnd fa 1 = 1" using assms dyadic_1 by (rule ieee_rnd)
  ultimately show ?thesis by (simp add: init_def base_config_def match_bounds_def)
qed

text \<open>
  Claim C10. Whenever a bound list shorter than the category list is
  accepted, the total that passed the check is the running total of the
  supplied list, and the learner holds that list extended by copies of its
  last bound; and some accepted configuration has extended bounds that sum to
  more than the total news-slot prominence.
\<close>

theorem extension_after_sum_check:
  "ieee_double fa \<Longrightarrow>
   (length (cfg_allocation_diversity_bounds c) < length (cfg_categories c) \<and> init fa c = Inr (l, w)
     \<longrightarrow> (\<exists>t. sum_of_bounds fa (cfg_allocation_diversity_bounds c) 0 = Inr t
              \<and> \<not> t > fsum fa (cfg_real_slot_promenances c))
         \<and> diversity_bounds l
           = cfg_allocation_diversity_bounds c
             @ replicate (length (cfg_categories c) - length (cfg_allocation_diversity_bounds c))
                 (last (cfg_allocation_diversity_bounds c)))
   \<and> (\<exists>c' l' w'. init fa c' = Inr (l', w')
         \<and> sum_list (diversity_bounds l') > sum_list (real_slot_promenances l'))"
proof (intro conjI impI)
  assume a: "length (cfg_allocation_diversity_bounds c) < length (cfg_categories c) \<and> init fa c = Inr (l, w)"
  let ?b = "cfg_allocation_diversity_bounds c"
  let ?ext = "?b @ replicate (length (cfg_categories c) - length ?b) (last ?b)"
  from a obtain t where t: "sum_of_bounds fa ?b 0 = Inr t"
    by (cases "sum_of_bounds fa ?b 0") (auto simp: init_def)
  with a have "\<not> t > fsum fa (cfg_real_slot_promenances c)"
    by (auto simp: init_def split: if_splits)
  with t show "\<exists>t. sum_of_bounds fa ?b 0 = Inr t \<and> \<not> t > fsum fa (cfg_real_slot_promenances c)"
    by blast
  from a t have "l = new_learner c ?ext"
    by (auto simp: init_def match_bounds_def split: if_splits sum.splits)
  moreover have "length ?ext = length (cfg_categories c)" using a by simp
  ultimately show "diversity_bounds l = ?ext"
    by (simp only: diversity_bounds_new_learner)
next
  assume fa: "ieee_double fa"
  let ?c = "base_config\<lparr>cfg_allocation_diversity_bounds := [1]\<rparr>"
  have "init fa ?c = Inr (new_learner ?c [1, 1], True)"
    using fa by (rule init_single_bound)
  moreover have "sum_list (diversity_bounds (new_learner ?c [1, 1]))
                 > sum_list (real_slot_promenances (new_learner ?c [1, 1]))"
    by (simp add: diversity_bounds_def new_learner_def base_config_def)
  ultimately show "\<exists>c' l' w'. init fa c' = Inr (l', w')
         \<and> sum_list (diversity_bounds l') > sum_list (real_slot_promenances l')"
    by blast
qed

text \<open>
  Claim C10, an instance under the arithmetic that never rounds: two
  categories, slots [0.9, 0.5] and the single bound 1 are accepted, the total
  that passed the check is 1, and the learner is built with the bounds [1, 1],
  which sum to 2 against a total prominence of 1.4.
\<close>

theorem extension_after_sum_check_witness:
  "length (cfg_allocation_diversity_bounds (base_config\<lparr>cfg_allocation_diversity_bounds := [1]\<rparr>))
     < length (cfg_categories (base_config\<lparr>cfg_allocation_diversity_bounds := [1]\<rparr>))
   \<and> init exact_arith (base_config\<lparr>cfg_allocation_diversity_bounds := [1]\<rparr>)
     = Inr (new_learner (base_config\<lparr>cfg_allocation_diversity_bounds := [1]\<rparr>) [1, 1], True)
   \<and> sum_of_bounds exact_arith [1] 0 = Inr 1
   \<and> diversity_bounds (new_learner (base_config\<lparr>cfg_allocation_diversity_bounds := [1]\<rparr>) [1, 1])
     = [1, 1]
   \<and> sum_list (diversity_bounds
        (new_learner (base_config\<lparr>cfg_allocation_diversity_bounds := [1]\<rparr>) [1, 1]))
     > sum_list (real_slot_promenances
        (new_learner (base_config\<lparr>cfg_allocation_diversity_bounds := [1]\<rparr>) [1, 1]))"
proof -
  let ?c = "base_config\<lparr>cfg_allocation_diversity_bounds := [1]\<rparr>"
  have i: "init exact_arith ?c = Inr (new_learner ?c [1, 1], True)"
    by (simp add: init_def base_config_def match_bounds_def exact_arith_def)
  have s: "length (cfg_allocation_diversity_bounds ?c) < length (cfg_categories ?c)"
    by (simp add: base_config_def)
  have e: "sum_of_bounds exact_arith [1] 0 = Inr 1" by (simp add: exact_arith_def)
  have g: "sum_list (diversity_bounds (new_learner ?c [1, 1]))
           > sum_list (real_slot_promenances (new_learner ?c [1, 1]))"
    by (simp add: diversity_bounds_def new_learner_def base_config_def)
  from extension_after_sum_check [OF ieee_double_exact, of ?c "new_learner ?c [1, 1]" True] s i
  have "diversity_bounds (new_learner ?c [1, 1]) = [1, 1]" by (simp add: base_config_def)
  with s i e g show ?thesis by simp
qed

section \<open>Filling the pool: validation first\<close>













section \<open>Removing ads leaves the buffers alone\<close>

lemma remove_loop_filter:
  "k \<le> length pool \<Longrightarrow>
   remove_loop pool ads_list (- int k)
   = (Inr (), take (length pool - k) pool
              @ filter (\<lambda>a. a \<notin> set ads_list) (drop (length pool - k) pool))"
proof (induction k arbitrary: pool)
  case 0
  show ?case by (subst remove_loop.simps) simp
next
  case (Suc k)
  define j where "j = length pool - Suc k"
  from Suc.prems have j: "j < length pool" "length pool - k = Suc j"
    by (simp_all add: j_def)
  have idx: "nat (int (length pool) + (- int (Suc k))) = j"
    using Suc.prems by (simp add: j_def)
  have nonneg: "\<not> int (length pool) + (- int (Suc k)) < 0"
    using Suc.prems by simp
  have step: "- int (Suc k) + 1 = - int k" by simp
  have dr: "drop j pool = pool ! j # drop (Suc j) pool"
    using j by (simp add: Cons_nth_drop_Suc)
  show ?case
  proof (cases "pool ! j \<in> set ads_list")
    case True
    let ?pool' = "take j pool @ drop (Suc j) pool"
    have len: "length ?pool' = length pool - 1" using j by simp
    then have k: "k \<le> length ?pool'" using Suc.prems by simp
    have lk: "length ?pool' - k = j" using len j by simp
    have "remove_loop ?pool' ads_list (- int k)
          = (Inr (), take j ?pool' @ filter (\<lambda>a. a \<notin> set ads_list) (drop j ?pool'))"
      using Suc.IH [OF k] by (simp only: lk)
    moreover have "take j ?pool' = take j pool" using j by simp
    moreover have "drop j ?pool' = drop (Suc j) pool" using j by simp
    ultimately have "remove_loop ?pool' ads_list (- int k)
          = (Inr (), take j pool @ filter (\<lambda>a. a \<notin> set ads_list) (drop (Suc j) pool))"
      by simp
    then show ?thesis
      using True idx nonneg step dr
      by (subst remove_loop.simps) (simp add: j_def [symmetric])
  next
    case False
    have k: "k \<le> length pool" using Suc.prems by simp
    have "remove_loop pool ads_list (- int k)
          = (Inr (), take (Suc j) pool @ filter (\<lambda>a. a \<notin> set ads_list) (drop (Suc j) pool))"
      using Suc.IH [OF k] by (simp only: j)
    then show ?thesis
      using False idx nonneg step dr j
      by (subst remove_loop.simps) (simp add: j_def [symmetric] take_Suc_conv_app_nth)
  qed
qed

lemma remove_loop_all:
  "remove_loop pool ads_list (- int (length pool))
   = (Inr (), filter (\<lambda>a. a \<notin> set ads_list) pool)"
  using remove_loop_filter [of "length pool" pool ads_list] by simp

text \<open>
  Claim C9. When the technique is one that \<^verbatim>\<open>find_ads_best_allocation\<close>
  accepts ("LP" or "res_LP"), \<^verbatim>\<open>remove_ad_from_pool\<close> returns normally,
  the ads pool loses every occurrence of the listed ads and nothing else, and
  the per-category buffers are what they were: the purge is guarded by the
  string "resLP".
\<close>

theorem remove_ad_keeps_buffers:
  assumes "accepted_ads_technique (ads_allocation_technique s)"
  shows "fst (remove_ad_from_pool s ads_list) = Inr ()
         \<and> ads_pool (snd (remove_ad_from_pool s ads_list))
             = filter (\<lambda>a. a \<notin> set ads_list) (ads_pool s)
         \<and> ads_per_category (snd (remove_ad_from_pool s ads_list)) = ads_per_category s"
  using assms
  by (auto simp add: remove_ad_from_pool_def remove_loop_all accepted_ads_technique_def)

text \<open>
  Claim C9, an instance: under "res_LP" the ad \<open>ad_e1\<close>, twice in the
  pool and once in its buffer, leaves the pool and stays in the buffer.
\<close>

theorem remove_ad_keeps_buffers_witness:
  "accepted_ads_technique (ads_allocation_technique ads_example_learner)
   \<and> fst (remove_ad_from_pool ads_example_learner [ad_e1]) = Inr ()
   \<and> ads_pool (snd (remove_ad_from_pool ads_example_learner [ad_e1])) = [ad_e2]
   \<and> ads_per_category (snd (remove_ad_from_pool ads_example_learner [ad_e1]))
       = [[[], [ad_e1, ad_e2]], [[], []]]"
  using remove_ad_keeps_buffers [of ads_example_learner "[ad_e1]"]
  by (simp add: ads_example_learner_def new_learner_def base_config_def
      accepted_ads_technique_def ad_e1_def ad_e2_def)

section \<open>The standard allocation\<close>

lemma argmax_Some: "xs \<noteq> [] \<Longrightarrow> \<exists>t. argmax xs = Some t"
  by (induction xs rule: argmax.induct) (auto split: option.splits)

lemma argmax_max:
  "argmax xs = Some t \<Longrightarrow> t < length xs \<and> (\<forall>i<length xs. xs ! i \<le> xs ! t)"
proof (induction xs arbitrary: t rule: argmax.induct)
  case 1 then show ?case by simp
next
  case (2 x) then show ?case by simp
next
  case (3 x y ys)
  obtain j where j: "argmax (y # ys) = Some j" using argmax_Some [of "y # ys"] by auto
  from "3.IH" [OF j] have jl: "j < length (y # ys)"
    and jm: "\<forall>i<length (y # ys). (y # ys) ! i \<le> (y # ys) ! j" by auto
  show ?case
  proof (cases "(y # ys) ! j > x")
    case True
    with j "3.prems" have t: "t = Suc j" by simp
    have "\<forall>i<length (x # y # ys). (x # y # ys) ! i \<le> (y # ys) ! j"
    proof (intro allI impI)
      fix i assume "i < length (x # y # ys)"
      then show "(x # y # ys) ! i \<le> (y # ys) ! j"
        using True jm by (cases i) auto
    qed
    with t jl show ?thesis by simp
  next
    case False
    with j "3.prems" have t: "t = 0" by simp
    have "\<forall>i<length (x # y # ys). (x # y # ys) ! i \<le> x"
    proof (intro allI impI)
      fix i assume i: "i < length (x # y # ys)"
      show "(x # y # ys) ! i \<le> x"
      proof (cases i)
        case 0 then show ?thesis by simp
      next
        case (Suc i')
        with i jm have "(y # ys) ! i' \<le> (y # ys) ! j" by simp
        with False Suc show ?thesis by simp
      qed
    qed
    with t show ?thesis by simp
  qed
qed

text \<open>\<^verbatim>\<open>np.argmax\<close> returns the first position of the maximum.\<close>

lemma argmax_first:
  "argmax xs = Some t \<Longrightarrow> \<forall>i<t. xs ! i < xs ! t"
proof (induction xs arbitrary: t rule: argmax.induct)
  case 1 then show ?case by simp
next
  case (2 x) then show ?case by simp
next
  case (3 x y ys)
  obtain j where j: "argmax (y # ys) = Some j" using argmax_Some [of "y # ys"] by auto
  from "3.IH" [OF j] have jf: "\<forall>i<j. (y # ys) ! i < (y # ys) ! j" .
  show ?case
  proof (cases "(y # ys) ! j > x")
    case True
    with j "3.prems" have t: "t = Suc j" by simp
    have "\<forall>i<Suc j. (x # y # ys) ! i < (y # ys) ! j"
    proof (intro allI impI)
      fix i assume "i < Suc j"
      then show "(x # y # ys) ! i < (y # ys) ! j"
        using True jf by (cases i) auto
    qed
    with t show ?thesis by simp
  next
    case False
    with j "3.prems" have "t = 0" by simp
    then show ?thesis by simp
  qed
qed

lemma finite_unvisited: "finite (unvisited proms)"
  by (simp add: unvisited_def)

lemma unvisited_update:
  "t \<in> unvisited proms \<Longrightarrow> unvisited (proms[t := -1]) = unvisited proms - {t}"
  by (auto simp: unvisited_def nth_list_update)

lemma standard_loop_inv:
  assumes "length proms = length result" "n \<le> length tmp"
      and "card (unvisited proms) = n"
      and "\<forall>i<length proms. proms ! i = -1 \<or> 0 \<le> proms ! i"
  shows "\<exists>lay order. standard_loop n tmp proms result = Inr lay
           \<and> length lay = length result
           \<and> distinct order \<and> set order = unvisited proms \<and> length order = n
           \<and> (\<forall>k<n. lay ! (order ! k) = Some (tmp ! k))
           \<and> (\<forall>k. Suc k < n \<longrightarrow> proms ! (order ! Suc k) \<le> proms ! (order ! k))
           \<and> (\<forall>k. Suc k < n \<longrightarrow> proms ! (order ! Suc k) = proms ! (order ! k)
                  \<longrightarrow> order ! k < order ! Suc k)
           \<and> (\<forall>i<length result. i \<notin> unvisited proms \<longrightarrow> lay ! i = result ! i)"
  using assms
proof (induction n arbitrary: tmp proms result)
  case 0
  then have "unvisited proms = {}" by (simp add: finite_unvisited)
  then show ?case by simp
next
  case (Suc n)
  from Suc.prems(3) have ne: "unvisited proms \<noteq> {}" by auto
  then obtain u where u: "u \<in> unvisited proms" by auto
  then have "proms \<noteq> []" by (auto simp: unvisited_def)
  then obtain t where t: "argmax proms = Some t" using argmax_Some by auto
  from argmax_max [OF t] have tl: "t < length proms"
    and tm: "\<forall>i<length proms. proms ! i \<le> proms ! t" by auto
  from argmax_first [OF t] have tf: "\<forall>i<t. proms ! i < proms ! t" .
  from u Suc.prems(4) have "0 \<le> proms ! u" "u < length proms" by (auto simp: unvisited_def)
  with tm have "0 \<le> proms ! t" by force
  with tl have tU: "t \<in> unvisited proms" by (simp add: unvisited_def)
  from Suc.prems(2) obtain a rest where tmp: "tmp = a # rest" by (cases tmp) auto
  let ?p = "proms[t := -1]" and ?r = "result[t := Some a]"
  have U': "unvisited ?p = unvisited proms - {t}" using tU by (rule unvisited_update)
  have c: "card (unvisited ?p) = n"
    using Suc.prems(3) tU by (simp add: U' finite_unvisited)
  have p4: "\<forall>i<length ?p. ?p ! i = -1 \<or> 0 \<le> ?p ! i"
  proof (intro allI impI)
    fix i assume "i < length ?p"
    then show "?p ! i = -1 \<or> 0 \<le> ?p ! i"
      using Suc.prems(4) by (cases "i = t") simp_all
  qed
  have "\<exists>lay order. standard_loop n rest ?p ?r = Inr lay
           \<and> length lay = length ?r
           \<and> distinct order \<and> set order = unvisited ?p \<and> length order = n
           \<and> (\<forall>k<n. lay ! (order ! k) = Some (rest ! k))
           \<and> (\<forall>k. Suc k < n \<longrightarrow> ?p ! (order ! Suc k) \<le> ?p ! (order ! k))
           \<and> (\<forall>k. Suc k < n \<longrightarrow> ?p ! (order ! Suc k) = ?p ! (order ! k)
                  \<longrightarrow> order ! k < order ! Suc k)
           \<and> (\<forall>i<length ?r. i \<notin> unvisited ?p \<longrightarrow> lay ! i = ?r ! i)"
    using Suc.prems(1,2) tmp c p4 by (intro Suc.IH) simp_all
  then obtain lay order where
    run: "standard_loop n rest ?p ?r = Inr lay" and len: "length lay = length result"
    and dist: "distinct order" and so: "set order = unvisited proms - {t}"
    and lo: "length order = n"
    and items: "\<forall>k<n. lay ! (order ! k) = Some (rest ! k)"
    and desc: "\<forall>k. Suc k < n \<longrightarrow> ?p ! (order ! Suc k) \<le> ?p ! (order ! k)"
    and ties: "\<forall>k. Suc k < n \<longrightarrow> ?p ! (order ! Suc k) = ?p ! (order ! k)
                  \<longrightarrow> order ! k < order ! Suc k"
    and keep: "\<forall>i<length result. i \<notin> unvisited ?p \<longrightarrow> lay ! i = ?r ! i"
    by (auto simp: U')
  have inU: "\<And>k. k < n \<Longrightarrow> order ! k \<in> unvisited proms \<and> order ! k \<noteq> t"
    using so lo by (metis DiffD1 DiffD2 insertI1 nth_mem)
  have same: "?p ! (order ! k) = proms ! (order ! k)" if "k < n" for k
    using inU [OF that] by simp
  have run': "standard_loop (Suc n) tmp proms result = Inr lay"
    using t tmp tl Suc.prems(1) run by simp
  have d': "distinct (t # order)" using dist so by simp
  have s': "set (t # order) = unvisited proms" using so tU by auto
  have tr: "t < length result" using tl Suc.prems(1) by simp
  have "t \<notin> unvisited ?p" by (simp add: U')
  with keep tr have lt: "lay ! t = Some a" by simp
  have items': "\<forall>k<Suc n. lay ! ((t # order) ! k) = Some (tmp ! k)"
  proof (intro allI impI)
    fix k assume "k < Suc n"
    then show "lay ! ((t # order) ! k) = Some (tmp ! k)"
      using lt items tmp by (cases k) auto
  qed
  have desc': "\<forall>k. Suc k < Suc n \<longrightarrow> proms ! ((t # order) ! Suc k) \<le> proms ! ((t # order) ! k)"
  proof (intro allI impI)
    fix k assume k: "Suc k < Suc n"
    show "proms ! ((t # order) ! Suc k) \<le> proms ! ((t # order) ! k)"
    proof (cases k)
      case 0
      from k 0 have "order ! 0 \<in> unvisited proms" using inU [of 0] by simp
      then have "order ! 0 < length proms" by (simp add: unvisited_def)
      with tm 0 show ?thesis by simp
    next
      case (Suc k')
      with k have k': "Suc k' < n" by simp
      then have "?p ! (order ! Suc k') \<le> ?p ! (order ! k')" using desc by blast
      moreover have "?p ! (order ! Suc k') = proms ! (order ! Suc k')" using same k' by blast
      moreover have "?p ! (order ! k') = proms ! (order ! k')" using same [of k'] k' by simp
      ultimately have "proms ! (order ! Suc k') \<le> proms ! (order ! k')" by simp
      with Suc show ?thesis by simp
    qed
  qed
  have ties': "\<forall>k. Suc k < Suc n \<longrightarrow> proms ! ((t # order) ! Suc k) = proms ! ((t # order) ! k)
                  \<longrightarrow> (t # order) ! k < (t # order) ! Suc k"
  proof (intro allI impI)
    fix k assume k: "Suc k < Suc n"
      and eq: "proms ! ((t # order) ! Suc k) = proms ! ((t # order) ! k)"
    show "(t # order) ! k < (t # order) ! Suc k"
    proof (cases k)
      case 0
      from k 0 have ne: "order ! 0 \<noteq> t" using inU [of 0] by simp
      from eq 0 have "proms ! (order ! 0) = proms ! t" by simp
      with tf have "\<not> order ! 0 < t" by force
      with ne 0 show ?thesis by simp
    next
      case (Suc k')
      with k have k': "Suc k' < n" by simp
      have "?p ! (order ! Suc k') = proms ! (order ! Suc k')" using same k' by blast
      moreover have "?p ! (order ! k') = proms ! (order ! k')" using same [of k'] k' by simp
      moreover from eq Suc have "proms ! (order ! Suc k') = proms ! (order ! k')" by simp
      ultimately have "?p ! (order ! Suc k') = ?p ! (order ! k')" by simp
      with ties k' have "order ! k' < order ! Suc k'" by blast
      with Suc show ?thesis by simp
    qed
  qed
  have keep': "\<forall>i<length result. i \<notin> unvisited proms \<longrightarrow> lay ! i = result ! i"
  proof (intro allI impI)
    fix i assume i: "i < length result" "i \<notin> unvisited proms"
    then have "i \<notin> unvisited ?p" "i \<noteq> t" using tU by (auto simp: U')
    with keep i show "lay ! i = result ! i" by simp
  qed
  from run' len d' s' lo items' desc' ties' keep' show ?case
    by (intro exI [of _ lay] exI [of _ "t # order"]) simp
qed

lemma pivot_position_total: "pivots \<noteq> [] \<Longrightarrow> \<exists>k. pivot_position pivots v = Inr k"
proof (cases "v < last pivots")
  case True
  assume ne: "pivots \<noteq> []"
  with True have "\<exists>p\<in>set (drop 0 pivots). v < p" by auto
  then have "pivot_while v pivots 0 = Inr (0 + length (takeWhile (\<lambda>p. p \<le> v) (drop 0 pivots)))"
    by (intro pivot_while_takeWhile) simp_all
  with True ne show ?thesis by (simp add: pivot_position_def)
next
  case False
  assume "pivots \<noteq> []"
  with False show ?thesis by (simp add: pivot_position_def)
qed

lemma position_of_total:
  assumes "news_column_pivots s \<noteq> []" "news_row_pivots s \<noteq> []"
  shows "\<exists>x y. position_of s env n = Inr (x, y)"
proof -
  obtain y where "pivot_position (news_column_pivots s) (promenance_cumsum env n) = Inr y"
    using pivot_position_total [OF assms(1)] by blast
  moreover obtain x where "pivot_position (news_row_pivots s) (amount_of_clicks env n) = Inr x"
    using pivot_position_total [OF assms(2)] by blast
  ultimately show ?thesis
    by (simp add: position_of_def compute_position_in_learning_matrix_def)
qed

lemma sample_quality_ok:
  assumes "news_column_pivots s \<noteq> []" "news_row_pivots s \<noteq> []"
  shows "\<exists>s'. sample_quality s env n d = (Inr (), s') \<and> same_setup s s'"
proof (cases d)
  case True
  obtain x y where "position_of s env n = Inr (x, y)"
    using position_of_total [OF assms] by blast
  with True show ?thesis by (simp add: sample_quality_def same_setup_def)
next
  case False
  then show ?thesis by (simp add: sample_quality_def same_setup_def)
qed

lemma sample_pool_ok:
  assumes "news_column_pivots s \<noteq> []" "news_row_pivots s \<noteq> []"
  shows "\<exists>s'. sample_pool env d pool s = (Inr (), s') \<and> same_setup s s'"
  using assms
proof (induction pool arbitrary: s)
  case Nil
  then show ?case by (simp add: same_setup_def)
next
  case (Cons n pool)
  obtain s1 where s1: "sample_quality s env n d = (Inr (), s1)" "same_setup s s1"
    using sample_quality_ok [OF Cons.prems] by blast
  then have "news_column_pivots s1 \<noteq> []" "news_row_pivots s1 \<noteq> []"
    using Cons.prems by (simp_all add: same_setup_def)
  from Cons.IH [OF this] obtain s' where
    "sample_pool env d pool s1 = (Inr (), s')" "same_setup s1 s'" by blast
  with s1 show ?case by (auto simp: same_setup_def)
qed

lemma unvisited_fresh:
  "list_all (\<lambda>p. 0 \<le> p \<and> p \<le> 1) proms \<Longrightarrow> unvisited proms = {..<length proms}"
  by (auto simp: unvisited_def list_all_length)

lemma length_py_sort_reverse [simp]: "length (py_sort_reverse f xs) = length xs"
  by (simp add: py_sort_reverse_def)

lemma set_py_sort_reverse [simp]: "set (py_sort_reverse f xs) = set xs"
  by (simp add: py_sort_reverse_def)

lemma distinct_py_sort_reverse [simp]: "distinct (py_sort_reverse f xs) = distinct xs"
  by (simp add: py_sort_reverse_def)

lemma standard_allocation_layout:
  assumes "layout_slots s = length (real_slot_promenances s)"
      and "list_all (\<lambda>p. 0 \<le> p \<and> p \<le> 1) (real_slot_promenances s)"
      and "layout_slots s \<le> length (news_pool s)"
  shows "\<exists>lay order.
           standard_allocation s
             = (Inr lay, s\<lparr>news_pool := py_sort_reverse (\<lambda>x. sampled_quality s (news_id x)) (news_pool s)\<rparr>)
           \<and> length lay = layout_slots s
           \<and> distinct order \<and> set order = {..<layout_slots s} \<and> length order = layout_slots s
           \<and> (\<forall>k<layout_slots s. lay ! (order ! k)
                 = Some (py_sort_reverse (\<lambda>x. sampled_quality s (news_id x)) (news_pool s) ! k))
           \<and> (\<forall>k. Suc k < layout_slots s \<longrightarrow>
                 real_slot_promenances s ! (order ! Suc k) \<le> real_slot_promenances s ! (order ! k))
           \<and> (\<forall>k. Suc k < layout_slots s \<longrightarrow>
                 real_slot_promenances s ! (order ! Suc k) = real_slot_promenances s ! (order ! k)
                 \<longrightarrow> order ! k < order ! Suc k)"
proof -
  let ?proms = "real_slot_promenances s"
  let ?sorted = "py_sort_reverse (\<lambda>x. sampled_quality s (news_id x)) (news_pool s)"
  let ?L = "layout_slots s"
  have U: "unvisited ?proms = {..<?L}" using assms(1,2) by (simp add: unvisited_fresh)
  have 1: "length ?proms = length (replicate ?L (None :: news option))" using assms(1) by simp
  have 2: "length ?proms \<le> length ?sorted" using assms(1,3) by simp
  have 3: "card (unvisited ?proms) = length ?proms" using U assms(1) by simp
  have 4: "\<forall>i<length ?proms. ?proms ! i = -1 \<or> 0 \<le> ?proms ! i"
    using assms(2) by (simp add: list_all_length)
  from standard_loop_inv [OF 1 2 3 4] obtain lay order where
    "standard_loop (length ?proms) ?sorted ?proms (replicate ?L None) = Inr lay"
    "length lay = ?L" "distinct order" "set order = {..<?L}" "length order = ?L"
    "\<forall>k<?L. lay ! (order ! k) = Some (?sorted ! k)"
    "\<forall>k. Suc k < ?L \<longrightarrow> ?proms ! (order ! Suc k) \<le> ?proms ! (order ! k)"
    "\<forall>k. Suc k < ?L \<longrightarrow> ?proms ! (order ! Suc k) = ?proms ! (order ! k)
           \<longrightarrow> order ! k < order ! Suc k"
    using U assms(1) by auto
  then show ?thesis
    by (intro exI [of _ lay] exI [of _ order]) (simp add: standard_allocation_def Let_def)
qed

lemma layout_of_order:
  assumes "length lay = L" "distinct order" "set order = {..<L}" "length order = L"
      and "\<forall>k<L. lay ! (order ! k) = Some (xs ! k)" "L \<le> length xs"
  shows "set lay = Some ` set (take L xs) \<and> (distinct (take L xs) \<longrightarrow> distinct lay)"
proof -
  have pos: "\<exists>k<L. order ! k = i" if "i < L" for i
  proof -
    from that assms(3) have "i \<in> set order" by simp
    then show ?thesis using assms(4) by (auto simp: in_set_conv_nth)
  qed
  have ordlt: "order ! k < L" if "k < L" for k
    using that assms(3,4) nth_mem [of k order] by auto
  have "set lay = Some ` set (take L xs)"
  proof (intro set_eqI iffI)
    fix x assume "x \<in> set lay"
    then obtain i where i: "i < L" "lay ! i = x" using assms(1) by (auto simp: in_set_conv_nth)
    then obtain k where k: "k < L" "order ! k = i" using pos by blast
    with assms(5) i have "x = Some (xs ! k)" by auto
    moreover have "xs ! k \<in> set (take L xs)"
      using k(1) assms(6) by (auto simp: in_set_conv_nth intro!: exI [of _ k])
    ultimately show "x \<in> Some ` set (take L xs)" by simp
  next
    fix x assume "x \<in> Some ` set (take L xs)"
    then obtain k where k: "k < L" "x = Some (xs ! k)"
      using assms(6) by (auto simp: in_set_conv_nth)
    with assms(5) have "lay ! (order ! k) = x" by simp
    moreover have "order ! k < length lay" using ordlt k(1) assms(1) by simp
    ultimately show "x \<in> set lay" using nth_mem by blast
  qed
  moreover have "distinct lay" if d: "distinct (take L xs)"
  proof (unfold distinct_conv_nth, intro allI impI)
    fix i j assume ij: "i < length lay" "j < length lay" "i \<noteq> j"
    then obtain k k' where k: "k < L" "order ! k = i" "k' < L" "order ! k' = j"
      using pos assms(1) by metis
    with ij have "k \<noteq> k'" by auto
    then have "take L xs ! k \<noteq> take L xs ! k'"
      using d k assms(6) by (simp add: distinct_conv_nth)
    then have "xs ! k \<noteq> xs ! k'" using k by simp
    with assms(5) k show "lay ! i \<noteq> lay ! j" by auto
  qed
  ultimately show ?thesis by blast
qed

lemma update_assignments_ok:
  assumes "news_column_pivots s \<noteq> []" "news_row_pivots s \<noteq> []" "None \<notin> set lay"
  shows "update_assignments s env d lay = Inr ()"
  using assms(3)
proof (induction lay)
  case Nil then show ?case by simp
next
  case (Cons a lay)
  then obtain n where a: "a = Some n" by (cases a) auto
  obtain x y where "position_of s env n = Inr (x, y)"
    using position_of_total [OF assms(1,2)] by blast
  with Cons a show ?case by (cases d) simp_all
qed

lemma too_few_news_refused:
  "length (news_pool s) < layout_slots s
   \<Longrightarrow> find_best_allocation s env lp interest_decay upd = (Inl RuntimeError, s)"
  by (simp add: find_best_allocation_def)

lemma standard_approach_returns:
  assumes "valid_learner s" "allocation_approach s = ''standard''"
      and "layout_slots s \<le> length (news_pool s)"
  shows "\<exists>lay s'. find_best_allocation s env lp interest_decay upd = (Inr lay, s')
           \<and> length lay = layout_slots s
           \<and> set lay \<subseteq> Some ` set (news_pool s)
           \<and> (distinct (news_pool s) \<longrightarrow> distinct lay)"
proof -
  from assms(1) have piv: "news_column_pivots s \<noteq> []" "news_row_pivots s \<noteq> []"
    and shape: "layout_slots s = length (real_slot_promenances s)"
               "list_all (\<lambda>p. 0 \<le> p \<and> p \<le> 1) (real_slot_promenances s)"
    by (simp_all add: valid_learner_def)
  obtain s1 where s1: "sample_pool env interest_decay (news_pool s) s = (Inr (), s1)"
    and same: "same_setup s s1"
    using sample_pool_ok [OF piv] by blast
  let ?sorted = "py_sort_reverse (\<lambda>x. sampled_quality s1 (news_id x)) (news_pool s1)"
  let ?s2 = "s1\<lparr>news_pool := ?sorted\<rparr>"
  let ?L = "layout_slots s1"
  have "\<exists>lay order. standard_allocation s1 = (Inr lay, ?s2)
           \<and> length lay = ?L
           \<and> distinct order \<and> set order = {..<?L} \<and> length order = ?L
           \<and> (\<forall>k<?L. lay ! (order ! k) = Some (?sorted ! k))
           \<and> (\<forall>k. Suc k < ?L \<longrightarrow>
                 real_slot_promenances s1 ! (order ! Suc k) \<le> real_slot_promenances s1 ! (order ! k))
           \<and> (\<forall>k. Suc k < ?L \<longrightarrow>
                 real_slot_promenances s1 ! (order ! Suc k) = real_slot_promenances s1 ! (order ! k)
                 \<longrightarrow> order ! k < order ! Suc k)"
    using same shape assms(3) by (intro standard_allocation_layout) (simp_all add: same_setup_def)
  then obtain lay order where
    run: "standard_allocation s1 = (Inr lay, ?s2)" and len: "length lay = ?L"
    and ord: "distinct order" "set order = {..<?L}" "length order = ?L"
    and items: "\<forall>k<?L. lay ! (order ! k) = Some (?sorted ! k)"
    by blast
  have Lle: "?L \<le> length ?sorted" using same assms(3) by (simp add: same_setup_def)
  from layout_of_order [OF len ord items Lle]
  have setlay: "set lay = Some ` set (take ?L ?sorted)"
    and dist: "distinct (take ?L ?sorted) \<longrightarrow> distinct lay" by auto
  have sub: "set lay \<subseteq> Some ` set (news_pool s)"
  proof -
    have "set (take ?L ?sorted) \<subseteq> set ?sorted" by (rule set_take_subset)
    also have "\<dots> = set (news_pool s)" using same by (simp add: same_setup_def)
    finally show ?thesis using setlay by auto
  qed
  have dl: "distinct (news_pool s) \<longrightarrow> distinct lay"
  proof
    assume "distinct (news_pool s)"
    then have "distinct ?sorted" using same by (simp add: same_setup_def)
    then have "distinct (take ?L ?sorted)" by (rule distinct_take)
    with dist show "distinct lay" by simp
  qed
  have "None \<notin> set lay" using setlay by auto
  moreover have "news_column_pivots ?s2 \<noteq> []" "news_row_pivots ?s2 \<noteq> []"
    using piv same by (simp_all add: same_setup_def)
  ultimately have upd_ok: "update_assignments ?s2 env interest_decay lay = Inr ()"
    by (intro update_assignments_ok)
  have app: "allocation_approach s1 = ''standard''"
    using same assms(2) by (simp add: same_setup_def)
  have "find_best_allocation s env lp interest_decay upd = (Inr lay, ?s2)"
    using assms(2,3) s1 app run upd_ok by (simp add: find_best_allocation_def)
  moreover have "length lay = layout_slots s" using len same by (simp add: same_setup_def)
  ultimately show ?thesis using sub dl by blast
qed

text \<open>
  Claim C2, as amended. With fewer pooled items than layout slots
  \<^verbatim>\<open>find_best_allocation\<close> raises RuntimeError and returns the learner as it
  was: nothing has been sampled or changed. Otherwise, for a valid learner
  under the standard approach, it returns a layout of exactly
  \<open>layout_slots\<close> entries, each of them an item of the pool, and the layout
  has no duplicate whenever the pool itself holds no item twice.
\<close>

theorem find_best_allocation_standard:
  "(length (news_pool s) < layout_slots s
      \<longrightarrow> find_best_allocation s env lp interest_decay upd = (Inl RuntimeError, s))
   \<and> (valid_learner s \<and> allocation_approach s = ''standard''
       \<and> layout_slots s \<le> length (news_pool s)
      \<longrightarrow> (\<exists>lay s'. find_best_allocation s env lp interest_decay upd = (Inr lay, s')
             \<and> length lay = layout_slots s
             \<and> set lay \<subseteq> Some ` set (news_pool s)
             \<and> (distinct (news_pool s) \<longrightarrow> distinct lay)))"
  using too_few_news_refused [of s env lp interest_decay upd]
        standard_approach_returns [of s env lp interest_decay upd]
  by blast

lemma example_run:
  "fst (find_best_allocation example_learner example_env no_lp False True)
   = Inr [Some news_A, Some news_B]"
  by (simp add: find_best_allocation_def example_learner_def new_learner_def base_config_def
      sample_quality_def example_env_def standard_allocation_def py_sort_reverse_def
      news_A_def news_B_def news_C_def news_D_def Let_def)

lemma tied_run:
  "fst (find_best_allocation tied_slots_learner example_env no_lp False True)
   = Inr [Some news_A, Some news_B]"
  by (simp add: find_best_allocation_def tied_slots_learner_def new_learner_def base_config_def
      sample_quality_def example_env_def standard_allocation_def py_sort_reverse_def
      news_A_def news_B_def news_C_def news_D_def Let_def)

text \<open>
  Claim C2, instances: the pool [A] with two slots is refused and the learner
  is unchanged; the pool [A, B, C, D] gives a layout of two distinct entries.
\<close>

theorem find_best_allocation_standard_witness:
  "find_best_allocation short_learner example_env no_lp False True
     = (Inl RuntimeError, short_learner)
   \<and> valid_learner example_learner \<and> allocation_approach example_learner = ''standard''
   \<and> layout_slots example_learner \<le> length (news_pool example_learner)
   \<and> distinct (news_pool example_learner)
   \<and> (\<exists>lay s'. find_best_allocation example_learner example_env no_lp False True = (Inr lay, s')
         \<and> length lay = 2 \<and> distinct lay)"
proof -
  have short: "length (news_pool short_learner) < layout_slots short_learner"
    by (simp add: short_learner_def new_learner_def base_config_def)
  have ok: "valid_learner example_learner" "allocation_approach example_learner = ''standard''"
      "layout_slots example_learner \<le> length (news_pool example_learner)"
      "distinct (news_pool example_learner)" "layout_slots example_learner = 2"
    by (simp_all add: example_learner_def new_learner_def base_config_def valid_learner_def
        news_A_def news_B_def news_C_def news_D_def)
  from short have 1: "find_best_allocation short_learner example_env no_lp False True
     = (Inl RuntimeError, short_learner)"
    using find_best_allocation_standard [of short_learner example_env no_lp False True] by blast
  from ok have 2: "\<exists>lay s'. find_best_allocation example_learner example_env no_lp False True
         = (Inr lay, s') \<and> length lay = 2 \<and> distinct lay"
    using find_best_allocation_standard [of example_learner example_env no_lp False True]
    by auto
  from 1 2 ok show ?thesis by blast
qed

text \<open>
  Claim C2 as stated fails for a pool that holds an item twice, even when the
  pool has as many distinct items as there are slots: a valid learner with two
  slots and the pool [A, A, B] (two distinct items) samples 0.9 and then 0.8
  for the one object A and 0.2 for B, sorts the pool to [A, A, B] and returns
  the layout [A, A].
\<close>

theorem find_best_allocation_duplicate:
  "valid_learner dup_learner \<and> allocation_approach dup_learner = ''standard''
   \<and> news_pool dup_learner = [news_A, news_A, news_B]
   \<and> layout_slots dup_learner = 2
   \<and> length (remdups (news_pool dup_learner)) = 2
   \<and> fst (find_best_allocation dup_learner example_env no_lp False True)
     = Inr [Some news_A, Some news_A]"
  by (simp add: find_best_allocation_def dup_learner_def new_learner_def base_config_def
      sample_quality_def example_env_def standard_allocation_def py_sort_reverse_def
      news_A_def news_B_def valid_learner_def Let_def)

lemma insort_key_cong_on:
  "f x = g x \<Longrightarrow> \<forall>y\<in>set ys. f y = g y \<Longrightarrow> insort_key f x ys = insort_key g x ys"
  by (induction ys) auto

lemma sort_key_cong_on:
  "\<forall>x\<in>set xs. f x = g x \<Longrightarrow> sort_key f xs = sort_key g xs"
proof (induction xs)
  case Nil then show ?case by simp
next
  case (Cons x xs)
  then have "sort_key f xs = sort_key g xs" by simp
  moreover have "insort_key f x (sort_key g xs) = insort_key g x (sort_key g xs)"
    using Cons.prems by (intro insort_key_cong_on) simp_all
  ultimately show ?case by (simp add: sort_key_simps)
qed

lemma py_sort_reverse_cong_on:
  "\<forall>x\<in>set xs. f x = g x \<Longrightarrow> py_sort_reverse f xs = py_sort_reverse g xs"
  using sort_key_cong_on [of "rev xs" f g] by (simp add: py_sort_reverse_def)

lemma py_sort_reverse_stable:
  "filter (\<lambda>y. f y = k) (py_sort_reverse f xs) = filter (\<lambda>y. f y = k) xs"
  by (simp add: py_sort_reverse_def rev_filter [symmetric] sort_key_stable)

lemma py_sort_reverse_descending: "sorted (rev (map f (py_sort_reverse f xs)))"
  by (simp add: py_sort_reverse_def rev_map)

lemma standard_allocation_agree:
  assumes "real_slot_promenances s' = real_slot_promenances s" "layout_slots s' = layout_slots s"
      and "news_pool s' = news_pool s"
      and "\<forall>n\<in>set (news_pool s). sampled_quality s' (news_id n) = sampled_quality s (news_id n)"
  shows "fst (standard_allocation s') = fst (standard_allocation s)"
proof -
  have "py_sort_reverse (\<lambda>x. sampled_quality s' (news_id x)) (news_pool s)
        = py_sort_reverse (\<lambda>x. sampled_quality s (news_id x)) (news_pool s)"
    using assms(4) by (intro py_sort_reverse_cong_on) simp
  with assms(1-3) show ?thesis by (simp add: standard_allocation_def Let_def)
qed

lemma standard_allocation_pool:
  "news_pool (snd (standard_allocation s))
   = py_sort_reverse (\<lambda>x. sampled_quality s (news_id x)) (news_pool s)"
  by (simp add: standard_allocation_def Let_def)

text \<open>
  Claim C6. The layout of the standard approach depends only on the slot
  prominences, the number of slots, the pool and the sampled qualities of the
  pooled items. The pool is served in descending order of sampled quality,
  items of equal quality in their input order; the \<open>k\<close>-th item of that
  order goes to the \<open>k\<close>-th slot in descending order of prominence, slots
  of equal prominence in ascending order of their position (\<^verbatim>\<open>np.argmax\<close>
  returns the first maximum), which fixes the layout completely. With slots
  [0.9, 0.5], zero bounds and the samples A: 0.9, B: 0.8, C: 0.2, D: 0.1 the
  layout is A in slot 0 and B in slot 1, and so it is with the two slots of
  equal prominence [1, 1].
\<close>

theorem greedy_layout_deterministic:
  "(real_slot_promenances s' = real_slot_promenances s \<and> layout_slots s' = layout_slots s
      \<and> news_pool s' = news_pool s
      \<and> (\<forall>n\<in>set (news_pool s). sampled_quality s' (news_id n) = sampled_quality s (news_id n))
     \<longrightarrow> fst (standard_allocation s') = fst (standard_allocation s))
   \<and> sorted (rev (map (\<lambda>x. sampled_quality s (news_id x)) (news_pool (snd (standard_allocation s)))))
   \<and> (\<forall>q. filter (\<lambda>x. sampled_quality s (news_id x) = q) (news_pool (snd (standard_allocation s)))
          = filter (\<lambda>x. sampled_quality s (news_id x) = q) (news_pool s))
   \<and> (layout_slots s = length (real_slot_promenances s)
      \<and> list_all (\<lambda>p. 0 \<le> p \<and> p \<le> 1) (real_slot_promenances s)
      \<and> layout_slots s \<le> length (news_pool s)
     \<longrightarrow> (\<exists>lay order. fst (standard_allocation s) = Inr lay
            \<and> length lay = layout_slots s
            \<and> distinct order \<and> set order = {..<layout_slots s} \<and> length order = layout_slots s
            \<and> (\<forall>k<layout_slots s.
                  lay ! (order ! k) = Some (news_pool (snd (standard_allocation s)) ! k))
            \<and> (\<forall>k. Suc k < layout_slots s \<longrightarrow>
                  real_slot_promenances s ! (order ! Suc k)
                  \<le> real_slot_promenances s ! (order ! k))
            \<and> (\<forall>k. Suc k < layout_slots s \<longrightarrow>
                  real_slot_promenances s ! (order ! Suc k)
                  = real_slot_promenances s ! (order ! k)
                  \<longrightarrow> order ! k < order ! Suc k)))
   \<and> fst (find_best_allocation example_learner example_env no_lp False True)
     = Inr [Some news_A, Some news_B]
   \<and> fst (find_best_allocation tied_slots_learner example_env no_lp False True)
     = Inr [Some news_A, Some news_B]"
proof -
  have 1: "real_slot_promenances s' = real_slot_promenances s \<and> layout_slots s' = layout_slots s
      \<and> news_pool s' = news_pool s
      \<and> (\<forall>n\<in>set (news_pool s). sampled_quality s' (news_id n) = sampled_quality s (news_id n))
     \<longrightarrow> fst (standard_allocation s') = fst (standard_allocation s)"
    using standard_allocation_agree [of s' s] by blast
  have 2: "sorted (rev (map (\<lambda>x. sampled_quality s (news_id x))
                     (news_pool (snd (standard_allocation s)))))"
    by (simp only: standard_allocation_pool py_sort_reverse_descending)
  have 3: "\<forall>q. filter (\<lambda>x. sampled_quality s (news_id x) = q) (news_pool (snd (standard_allocation s)))
          = filter (\<lambda>x. sampled_quality s (news_id x) = q) (news_pool s)"
    by (simp only: standard_allocation_pool py_sort_reverse_stable) simp
  have 4: "layout_slots s = length (real_slot_promenances s)
      \<and> list_all (\<lambda>p. 0 \<le> p \<and> p \<le> 1) (real_slot_promenances s)
      \<and> layout_slots s \<le> length (news_pool s)
     \<longrightarrow> (\<exists>lay order. fst (standard_allocation s) = Inr lay
            \<and> length lay = layout_slots s
            \<and> distinct order \<and> set order = {..<layout_slots s} \<and> length order = layout_slots s
            \<and> (\<forall>k<layout_slots s.
                  lay ! (order ! k) = Some (news_pool (snd (standard_allocation s)) ! k))
            \<and> (\<forall>k. Suc k < layout_slots s \<longrightarrow>
                  real_slot_promenances s ! (order ! Suc k)
                  \<le> real_slot_promenances s ! (order ! k))
            \<and> (\<forall>k. Suc k < layout_slots s \<longrightarrow>
                  real_slot_promenances s ! (order ! Suc k)
                  = real_slot_promenances s ! (order ! k)
                  \<longrightarrow> order ! k < order ! Suc k))"
  proof
    assume a: "layout_slots s = length (real_slot_promenances s)
      \<and> list_all (\<lambda>p. 0 \<le> p \<and> p \<le> 1) (real_slot_promenances s)
      \<and> layout_slots s \<le> length (news_pool s)"
    then obtain lay order where
      "standard_allocation s
         = (Inr lay, s\<lparr>news_pool := py_sort_reverse (\<lambda>x. sampled_quality s (news_id x)) (news_pool s)\<rparr>)"
      "length lay = layout_slots s" "distinct order" "set order = {..<layout_slots s}"
      "length order = layout_slots s"
      "\<forall>k<layout_slots s. lay ! (order ! k)
                 = Some (py_sort_reverse (\<lambda>x. sampled_quality s (news_id x)) (news_pool s) ! k)"
      "\<forall>k. Suc k < layout_slots s \<longrightarrow>
                 real_slot_promenances s ! (order ! Suc k) \<le> real_slot_promenances s ! (order ! k)"
      "\<forall>k. Suc k < layout_slots s \<longrightarrow>
                 real_slot_promenances s ! (order ! Suc k) = real_slot_promenances s ! (order ! k)
                 \<longrightarrow> order ! k < order ! Suc k"
      using standard_allocation_layout [of s] by blast
    then show "\<exists>lay order. fst (standard_allocation s) = Inr lay
            \<and> length lay = layout_slots s
            \<and> distinct order \<and> set order = {..<layout_slots s} \<and> length order = layout_slots s
            \<and> (\<forall>k<layout_slots s.
                  lay ! (order ! k) = Some (news_pool (snd (standard_allocation s)) ! k))
            \<and> (\<forall>k. Suc k < layout_slots s \<longrightarrow>
                  real_slot_promenances s ! (order ! Suc k)
                  \<le> real_slot_promenances s ! (order ! k))
            \<and> (\<forall>k. Suc k < layout_slots s \<longrightarrow>
                  real_slot_promenances s ! (order ! Suc k)
                  = real_slot_promenances s ! (order ! k)
                  \<longrightarrow> order ! k < order ! Suc k)"
      by (intro exI [of _ lay] exI [of _ order]) simp
  qed
  from 1 2 3 4 example_run tied_run show ?thesis by blast
qed

text \<open>
  Claim C6, an instance: two learners that differ in the number of samples
  taken and in the quality of an item outside the pool produce the same
  layout of two entries.
\<close>

theorem greedy_layout_deterministic_witness:
  "real_slot_promenances resampled_learner = real_slot_promenances sampled_learner
   \<and> layout_slots resampled_learner = layout_slots sampled_learner
   \<and> news_pool resampled_learner = news_pool sampled_learner
   \<and> map (\<lambda>n. sampled_quality resampled_learner (news_id n)) (news_pool sampled_learner)
     = map (\<lambda>n. sampled_quality sampled_learner (news_id n)) (news_pool sampled_learner)
   \<and> layout_slots sampled_learner = length (real_slot_promenances sampled_learner)
   \<and> list_all (\<lambda>p. 0 \<le> p \<and> p \<le> 1) (real_slot_promenances sampled_learner)
   \<and> layout_slots sampled_learner \<le> length (news_pool sampled_learner)
   \<and> fst (standard_allocation resampled_learner) = fst (standard_allocation sampled_learner)
   \<and> (\<exists>lay. fst (standard_allocation sampled_learner) = Inr lay \<and> length lay = 2)"
proof -
  have h: "real_slot_promenances resampled_learner = real_slot_promenances sampled_learner"
      "layout_slots resampled_learner = layout_slots sampled_learner"
      "news_pool resampled_learner = news_pool sampled_learner"
      "\<forall>n\<in>set (news_pool sampled_learner).
         sampled_quality resampled_learner (news_id n) = sampled_quality sampled_learner (news_id n)"
      "layout_slots sampled_learner = length (real_slot_promenances sampled_learner)"
      "list_all (\<lambda>p. 0 \<le> p \<and> p \<le> 1) (real_slot_promenances sampled_learner)"
      "layout_slots sampled_learner \<le> length (news_pool sampled_learner)"
      "layout_slots sampled_learner = 2"
    by (simp_all add: sampled_learner_def resampled_learner_def example_learner_def
        new_learner_def base_config_def news_A_def news_B_def news_C_def news_D_def)
  from h have 1: "fst (standard_allocation resampled_learner) = fst (standard_allocation sampled_learner)"
    using greedy_layout_deterministic [of resampled_learner sampled_learner] by blast
  from h have 2: "\<exists>lay. fst (standard_allocation sampled_learner) = Inr lay \<and> length lay = 2"
    using greedy_layout_deterministic [of resampled_learner sampled_learner] by auto
  from h 1 2 show ?thesis by simp
qed

section \<open>Candidate selection with a short category\<close>

text \<open>
  Claim C3, at an input where the code departs from it: two categories, two
  slots, a pool of three items of which only one has category "b". The
  pool has at least as many items as slots and category "b" has fewer;
  the scan reaches the first item of category "a" with one item kept and
  raises RuntimeWarning, so the selection step does not complete.
\<close>

theorem select_candidates_raises:
  "layout_slots short_category_learner \<le> length (news_pool short_category_learner)
   \<and> map_option fst (select_candidates short_category_learner first_draw) = Some (Inl RuntimeWarning)"
  by (simp add: select_candidates_def short_category_learner_def new_learner_def base_config_def
      py_sort_reverse_def news_A_def news_B_def news_C_def first_draw_def Let_def)

text \<open>
  When the short category is the last one scanned nothing is raised, but the
  padding loop can only stop once the subset holds
  \<^verbatim>\<open>len(categories) * layout_slots\<close> items: with every item of the pool
  already in the subset it never returns.
\<close>

lemma pad_loop_stuck:
  assumes "pad_loop choice k pool target LP = Some r"
  shows "\<not> (length LP < target \<and> pool \<noteq> [] \<and> set pool \<subseteq> set LP)"
proof (rule pad_loop.raw_induct
    [where P = "\<lambda>choice k pool target LP r.
                  \<not> (length LP < target \<and> pool \<noteq> [] \<and> set pool \<subseteq> set LP)",
     OF _ assms])
  fix pad :: "(nat \<Rightarrow> nat) \<Rightarrow> nat \<Rightarrow> news list \<Rightarrow> nat \<Rightarrow> news list \<Rightarrow> (error + news list) option"
  fix c k pool target LP r
  assume IH: "\<And>c k pool target LP y. pad c k pool target LP = Some y \<Longrightarrow>
                \<not> (length LP < target \<and> pool \<noteq> [] \<and> set pool \<subseteq> set LP)"
  assume step: "(if length LP < target
      then if pool = [] then Some (Inl ValueError)
           else if pool ! (c k mod length pool) \<notin> set LP
                then pad c (Suc k) pool target (LP @ [pool ! (c k mod length pool)])
                else pad c (Suc k) pool target LP
      else Some (Inr LP)) = Some r"
  show "\<not> (length LP < target \<and> pool \<noteq> [] \<and> set pool \<subseteq> set LP)"
  proof
    assume a: "length LP < target \<and> pool \<noteq> [] \<and> set pool \<subseteq> set LP"
    then have "pool ! (c k mod length pool) \<in> set LP" by (simp add: subset_iff)
    with a step have "pad c (Suc k) pool target LP = Some r" by simp
    from IH [OF this] a show False by simp
  qed
qed

lemma select_candidates_diverges:
  "select_candidates last_category_short_learner choice = None"
proof -
  let ?pool = "[news_C, news_D, news_A]"
  let ?n = "Suc (Suc (Suc (Suc 0)))"
  have "pad_loop choice 0 ?pool ?n ?pool = None"
  proof (cases "pad_loop choice 0 ?pool ?n ?pool")
    case None then show ?thesis .
  next
    case (Some r)
    from pad_loop_stuck [OF this] show ?thesis by simp
  qed
  then show ?thesis
  by (simp add: select_candidates_def last_category_short_learner_def new_learner_def base_config_def
      py_sort_reverse_def news_A_def news_D_def news_C_def Let_def)
qed

section \<open>Derandomization: distinct candidates, and a division by zero\<close>

lemma first_positive_valid: "valid_chooser first_positive"
  unfolding valid_chooser_def
proof (intro allI impI)
  fix k :: nat and p :: "real list"
  assume a: "(\<forall>x\<in>set p. 0 \<le> x) \<and> (\<exists>x\<in>set p. 0 < x)"
  then have "\<not> (\<forall>x\<in>set p. x \<le> 0)" by (auto simp: not_le)
  then have "takeWhile (\<lambda>x. x \<le> 0) p \<noteq> p" by (simp add: takeWhile_eq_all_conv)
  moreover have "length (takeWhile (\<lambda>x. x \<le> 0) p) \<le> length p" by (rule length_takeWhile_le)
  ultimately have lt: "length (takeWhile (\<lambda>x. x \<le> 0) p) < length p"
    by (metis le_neq_implies_less takeWhile_eq_take take_all order_refl)
  from nth_length_takeWhile [OF lt] have "0 < p ! length (takeWhile (\<lambda>x. x \<le> 0) p)" by simp
  with lt show "first_positive k p < length p \<and> 0 < p ! first_positive k p"
    by (simp add: first_positive_def)
qed

lemma finite_unserved: "finite (unserved proms)"
  by (simp add: unserved_def)

lemma unserved_update:
  "t \<in> unserved proms \<Longrightarrow> unserved (proms[t := 0]) = unserved proms - {t}"
  by (auto simp: unserved_def nth_list_update)

lemma index_from_nth:
  "index_from xs x i = Some j \<Longrightarrow> i \<le> j \<and> j - i < length xs \<and> xs ! (j - i) = x"
proof (induction xs arbitrary: i)
  case Nil then show ?case by simp
next
  case (Cons y ys)
  show ?case
  proof (cases "y = x")
    case True with Cons.prems show ?thesis by simp
  next
    case False
    with Cons.prems have "index_from ys x (Suc i) = Some j" by simp
    from Cons.IH [OF this] have "Suc i \<le> j" "j - Suc i < length ys" "ys ! (j - Suc i) = x"
      by auto
    then show ?thesis by (simp add: Suc_diff_le)
  qed
qed

lemma list_index_nth: "list_index xs x = Inr t \<Longrightarrow> t < length xs \<and> xs ! t = x"
  using index_from_nth [of xs x 0 t] by (auto simp: list_index_def split: option.splits)

text \<open>
  A draw that succeeds returns the entry of \<open>a\<close> at a position of positive
  probability: a vector of zeros is never accepted.
\<close>

lemma np_random_choice_Inr:
  assumes "ieee_double fa" "valid_chooser pick" "np_random_choice fa pick k a p = Inr x"
  shows "\<exists>ps. p = Some ps \<and> length ps = length a \<and> pick k ps < length a
              \<and> x = a ! pick k ps \<and> 0 < ps ! pick k ps"
proof -
  from assms(3) obtain ps where ps: "p = Some ps"
    by (cases p) (auto simp: np_random_choice_def)
  with assms(3) have c: "a \<noteq> []" "length ps = length a" "\<forall>x\<in>set ps. 0 \<le> x" "sums_to_one fa ps"
      "pick k ps < length a" "x = a ! pick k ps"
    by (auto simp: np_random_choice_def not_less split: if_splits)
  have "\<exists>x\<in>set ps. 0 < x"
  proof (rule ccontr)
    assume "\<not> (\<exists>x\<in>set ps. 0 < x)"
    with c(3) have "\<forall>x\<in>set ps. x = 0" by force
    then have "list_all (\<lambda>x. x = 0) ps" by (simp add: list_all_iff)
    moreover have "ps \<noteq> []" using c(1,2) by auto
    ultimately have "\<not> sums_to_one fa ps" using assms(1) by (intro ieee_refuses)
    with c(4) show False by simp
  qed
  with assms(2) c(3) have "0 < ps ! pick k ps" by (simp add: valid_chooser_def)
  with ps c show ?thesis by simp
qed

text \<open>
  The slot chosen next has not been served: its remaining prominence is not
  0. Under "rand_2" the drawn prominence has a positive rounded quotient, and
  the quotient of 0 is 0.
\<close>

lemma select_slot_unserved:
  assumes "ieee_double fa" "valid_chooser pick" "\<forall>i<length proms. 0 \<le> proms ! i"
      and "unserved proms \<noteq> {}"
      and "select_slot fa pick tech k proms = Inr (t, k1)"
  shows "t \<in> unserved proms"
proof (cases "tech = ''rand_1'' \<or> tech = ''rand_3''")
  case True
  with assms(5) have am: "argmax proms = Some t"
    by (auto simp: select_slot_def split: option.splits)
  from argmax_max [OF am] have tl: "t < length proms"
    and tm: "\<forall>i<length proms. proms ! i \<le> proms ! t" by auto
  from assms(4) obtain u where u: "u < length proms" "proms ! u \<noteq> 0"
    by (auto simp: unserved_def)
  with assms(3) have "0 < proms ! u" by (simp add: less_le)
  with tm u(1) have "0 < proms ! t" by force
  with tl show ?thesis by (simp add: unserved_def)
next
  case False
  with assms(5) obtain v where
    ch: "np_random_choice fa pick k proms (normalize fa proms) = Inr v"
    and li: "list_index proms v = Inr t"
    by (auto simp: select_slot_def split: sum.splits)
  from np_random_choice_Inr [OF assms(1,2) ch] obtain ps where
    ps: "normalize fa proms = Some ps" "pick k ps < length proms" "v = proms ! pick k ps"
        "0 < ps ! pick k ps" by blast
  from ps(1) have pseq: "ps = map (\<lambda>x. rnd fa (x / fsum fa proms)) proms"
    by (auto simp: normalize_def split: if_splits)
  from ps(2,4) pseq have q: "0 < rnd fa (proms ! pick k ps / fsum fa proms)" by simp
  have "v \<noteq> 0"
  proof
    assume "v = 0"
    with ps(3) q have "0 < rnd fa 0" by simp
    moreover have "rnd fa 0 = 0" using assms(1) dyadic_0 by (rule ieee_rnd)
    ultimately show False by simp
  qed
  moreover from list_index_nth [OF li] have "t < length proms" "proms ! t = v" by auto
  ultimately show ?thesis by (simp add: unserved_def)
qed

lemma de_rand_loop_Suc_Inr:
  assumes "de_rand_loop fa pick tech pool (Suc n) k result proms feasible probs allocated = Inr lay"
  obtains t k1 v sel di probs' where
    "select_slot fa pick tech k proms = Inr (t, k1)"
    "t < length probs"
    "(if tech = ''rand_3'' then dampen fa allocated t probs 0 (probs ! t) else Inr (probs ! t)) = Inr v"
    "np_random_choice fa pick k1 feasible (map_option (map abs) (normalize fa v)) = Inr sel"
    "sel < length pool" "t < length result"
    "list_index feasible sel = Inr di"
    "delete_in_all di probs = Inr probs'"
    "de_rand_loop fa pick tech pool n (Suc k1) (result[t := Some (pool ! sel)]) (proms[t := 0])
       (take di feasible @ drop (Suc di) feasible) probs'
       (if tech = ''rand_3'' then allocated @ [t] else allocated) = Inr lay"
proof -
  from assms obtain t k1 where ss: "select_slot fa pick tech k proms = Inr (t, k1)"
    by (cases "select_slot fa pick tech k proms") auto
  with assms have tl: "t < length probs" by (simp split: if_splits)
  from assms ss tl obtain v where
    v: "(if tech = ''rand_3'' then dampen fa allocated t probs 0 (probs ! t) else Inr (probs ! t)) = Inr v"
    by (cases "if tech = ''rand_3'' then dampen fa allocated t probs 0 (probs ! t) else Inr (probs ! t)")
       (simp_all split: if_splits)
  from assms ss tl v obtain sel where
    sel: "np_random_choice fa pick k1 feasible (map_option (map abs) (normalize fa v)) = Inr sel"
    by (cases "np_random_choice fa pick k1 feasible (map_option (map abs) (normalize fa v))")
       (simp_all split: if_splits)
  from assms ss tl v sel have b: "sel < length pool" "t < length result"
    by (simp_all split: if_splits)
  from assms ss tl v sel b obtain di where di: "list_index feasible sel = Inr di"
    by (cases "list_index feasible sel") (simp_all split: if_splits)
  from assms ss tl v sel b di obtain probs' where pr: "delete_in_all di probs = Inr probs'"
    by (cases "delete_in_all di probs") (simp_all split: if_splits)
  from assms ss tl v sel b di pr have
    "de_rand_loop fa pick tech pool n (Suc k1) (result[t := Some (pool ! sel)]) (proms[t := 0])
       (take di feasible @ drop (Suc di) feasible) probs'
       (if tech = ''rand_3'' then allocated @ [t] else allocated) = Inr lay"
    by (simp split: if_splits)
  with ss tl v sel b di pr that show thesis by blast
qed

lemma set_delete_distinct:
  assumes "distinct xs" "di < length xs"
  shows "set (take di xs @ drop (Suc di) xs) = set xs - {xs ! di}"
    and "distinct (take di xs @ drop (Suc di) xs)"
proof -
  have xs: "xs = take di xs @ xs ! di # drop (Suc di) xs"
    using assms(2) by (simp add: id_take_nth_drop)
  have d: "distinct (take di xs @ xs ! di # drop (Suc di) xs)" using assms(1) xs by simp
  then show "distinct (take di xs @ drop (Suc di) xs)" by simp
  have "set xs = set (take di xs @ drop (Suc di) xs) \<union> {xs ! di}"
    by (subst xs) auto
  moreover have "xs ! di \<notin> set (take di xs @ drop (Suc di) xs)" using d by simp
  ultimately show "set (take di xs @ drop (Suc di) xs) = set xs - {xs ! di}" by auto
qed

lemma de_rand_loop_layout:
  assumes "ieee_double fa" "valid_chooser pick"
      and "de_rand_loop fa pick tech pool n k result proms feasible probs allocated = Inr lay"
      and "length cl = length proms" "result = placed pool cl"
      and "\<forall>i<length proms. 0 \<le> proms ! i"
      and "card (unserved proms) = n"
      and "\<forall>i<length cl. (cl ! i = None) = (i \<in> unserved proms)"
      and "\<forall>i<length cl. \<forall>c. cl ! i = Some c \<longrightarrow> c < length pool \<and> c \<notin> set feasible"
      and "\<forall>i<length cl. \<forall>j<length cl. \<forall>c. cl ! i = Some c \<and> cl ! j = Some c \<longrightarrow> i = j"
      and "distinct feasible"
  shows "\<exists>cand. length cand = length proms \<and> distinct cand
           \<and> (\<forall>c\<in>set cand. c < length pool) \<and> lay = map (\<lambda>c. Some (pool ! c)) cand"
  using assms(3-)
proof (induction n arbitrary: k result proms feasible probs allocated cl)
  case 0
  then have U: "unserved proms = {}" by (simp add: finite_unserved)
  from 0 have lay: "lay = placed pool cl" by simp
  have some: "\<forall>i<length cl. \<exists>c. cl ! i = Some c" using "0.prems"(6) U by auto
  let ?cand = "map the cl"
  have 1: "length ?cand = length proms" using "0.prems"(2) by simp
  have 2: "distinct ?cand"
  proof (unfold distinct_conv_nth, intro allI impI)
    fix i j assume ij: "i < length ?cand" "j < length ?cand" "i \<noteq> j"
    then obtain c c' where c: "cl ! i = Some c" "cl ! j = Some c'" using some by force
    with ij "0.prems"(8) have "c \<noteq> c'" by auto
    with c ij show "?cand ! i \<noteq> ?cand ! j" by simp
  qed
  have 3: "\<forall>c\<in>set ?cand. c < length pool"
  proof
    fix c assume "c \<in> set ?cand"
    then obtain i where i: "i < length cl" "c = the (cl ! i)" by (auto simp: in_set_conv_nth)
    with some obtain c' where "cl ! i = Some c'" by blast
    with i "0.prems"(7) show "c < length pool" by auto
  qed
  have 4: "lay = map (\<lambda>c. Some (pool ! c)) ?cand"
  proof (rule nth_equalityI)
    show "length lay = length (map (\<lambda>c. Some (pool ! c)) ?cand)" by (simp add: lay placed_def)
  next
    fix i assume "i < length lay"
    then have i: "i < length cl" by (simp add: lay placed_def)
    with some obtain c where "cl ! i = Some c" by blast
    with i show "lay ! i = map (\<lambda>c. Some (pool ! c)) ?cand ! i" by (simp add: lay placed_def)
  qed
  from 1 2 3 4 show ?case by blast
next
  case (Suc n)
  from Suc.prems(1) obtain t k1 v sel di probs' where
    ss: "select_slot fa pick tech k proms = Inr (t, k1)"
    and ch: "np_random_choice fa pick k1 feasible (map_option (map abs) (normalize fa v)) = Inr sel"
    and sl: "sel < length pool" and tr: "t < length result"
    and li: "list_index feasible sel = Inr di"
    and run: "de_rand_loop fa pick tech pool n (Suc k1) (result[t := Some (pool ! sel)]) (proms[t := 0])
       (take di feasible @ drop (Suc di) feasible) probs'
       (if tech = ''rand_3'' then allocated @ [t] else allocated) = Inr lay"
    by (rule de_rand_loop_Suc_Inr)
  from Suc.prems(5) have ne: "unserved proms \<noteq> {}" by auto
  from select_slot_unserved [OF assms(1,2) Suc.prems(4) ne ss] have tU: "t \<in> unserved proms" .
  then have tl: "t < length proms" by (simp add: unserved_def)
  from list_index_nth [OF li] have di: "di < length feasible" "feasible ! di = sel" by auto
  then have selF: "sel \<in> set feasible" by auto
  let ?f = "take di feasible @ drop (Suc di) feasible"
  have fset: "set ?f = set feasible - {sel}" and fdist: "distinct ?f"
    using set_delete_distinct [OF Suc.prems(9) di(1)] di(2) by auto
  let ?cl = "cl[t := Some sel]" and ?p = "proms[t := 0]"
  have U': "unserved ?p = unserved proms - {t}" using tU by (rule unserved_update)
  have p2: "length ?cl = length ?p" using Suc.prems(2) by simp
  have p3: "result[t := Some (pool ! sel)] = placed pool ?cl"
    using Suc.prems(3) by (simp add: placed_def map_update)
  have p4: "\<forall>i<length ?p. 0 \<le> ?p ! i"
  proof (intro allI impI)
    fix i assume "i < length ?p"
    then show "0 \<le> ?p ! i" using Suc.prems(4) by (cases "i = t") simp_all
  qed
  have p5: "card (unserved ?p) = n" using Suc.prems(5) tU by (simp add: U' finite_unserved)
  have p6: "\<forall>i<length ?cl. (?cl ! i = None) = (i \<in> unserved ?p)"
  proof (intro allI impI)
    fix i assume "i < length ?cl"
    then show "(?cl ! i = None) = (i \<in> unserved ?p)"
      using Suc.prems(6) by (cases "i = t") (simp_all add: U')
  qed
  have p7: "\<forall>i<length ?cl. \<forall>c. ?cl ! i = Some c \<longrightarrow> c < length pool \<and> c \<notin> set ?f"
  proof (intro allI impI)
    fix i c assume i: "i < length ?cl" and c: "?cl ! i = Some c"
    show "c < length pool \<and> c \<notin> set ?f"
    proof (cases "i = t")
      case True
      with i c have "c = sel" by simp
      with sl fset show ?thesis by simp
    next
      case False
      with i c have "cl ! i = Some c" "i < length cl" by simp_all
      with Suc.prems(7) have "c < length pool" "c \<notin> set feasible" by auto
      with fset show ?thesis by simp
    qed
  qed
  have notsel: "cl ! j \<noteq> Some sel" if "j < length cl" for j
    using Suc.prems(7) that selF by auto
  have p8: "\<forall>i<length ?cl. \<forall>j<length ?cl. \<forall>c. ?cl ! i = Some c \<and> ?cl ! j = Some c \<longrightarrow> i = j"
  proof (intro allI impI)
    fix i j c assume i: "i < length ?cl" and j: "j < length ?cl"
      and c: "?cl ! i = Some c \<and> ?cl ! j = Some c"
    show "i = j"
    proof (cases "i = t")
      case it: True
      show ?thesis
      proof (cases "j = t")
        case True with it show ?thesis by simp
      next
        case False
        with it i j c have "cl ! j = Some sel" by simp
        with notsel j show ?thesis by simp
      qed
    next
      case it: False
      show ?thesis
      proof (cases "j = t")
        case True
        with it i j c have "cl ! i = Some sel" by simp
        with notsel i show ?thesis by simp
      next
        case False
        with it i j c have "cl ! i = Some c \<and> cl ! j = Some c" by simp
        with Suc.prems(8) i j show ?thesis by simp
      qed
    qed
  qed
  from Suc.IH [OF run p2 p3 p4 p5 p6 p7 p8 fdist]
  show ?case by simp
qed

lemma unserved_positive:
  "list_all (\<lambda>p. 0 < p) proms \<Longrightarrow> unserved proms = {..<length proms}"
  by (auto simp: unserved_def list_all_length)

text \<open>
  What the claim promises, whenever the derandomization returns: for every
  technique string, every chooser that only picks positions of positive
  probability and strictly positive slot prominences, the layout has one entry
  per slot, every entry is a candidate of the pool, and no candidate (position
  of the pool) fills two slots.
\<close>

lemma de_randomize_LP_sound:
  assumes "ieee_double fa" "valid_chooser pick"
      and "layout_slots s = length (real_slot_promenances s)"
      and "list_all (\<lambda>p. 0 < p) (real_slot_promenances s)"
      and "de_randomize_LP s fa pick pool probs tech = Inr lay"
  shows "\<exists>cand. length cand = layout_slots s \<and> distinct cand
           \<and> (\<forall>c\<in>set cand. c < length pool) \<and> lay = map (\<lambda>c. Some (pool ! c)) cand"
proof -
  let ?L = "layout_slots s" and ?proms = "real_slot_promenances s"
  let ?cl = "replicate ?L (None :: nat option)"
  have run: "de_rand_loop fa pick tech pool ?L 0 (replicate ?L None) ?proms [0..<length pool] probs []
             = Inr lay"
    using assms(5) by (simp add: de_randomize_LP_def)
  have U: "unserved ?proms = {..<?L}" using assms(3,4) by (simp add: unserved_positive)
  have 1: "length ?cl = length ?proms" using assms(3) by simp
  have 2: "replicate ?L None = placed pool ?cl" by (simp add: placed_def)
  have 3: "\<forall>i<length ?proms. 0 \<le> ?proms ! i"
    using assms(4) by (auto simp: list_all_length intro: less_imp_le)
  have 4: "card (unserved ?proms) = ?L" using U by simp
  have 5: "\<forall>i<length ?cl. (?cl ! i = None) = (i \<in> unserved ?proms)" using U by simp
  have 6: "\<forall>i<length ?cl. \<forall>c. ?cl ! i = Some c \<longrightarrow> c < length pool \<and> c \<notin> set [0..<length pool]"
    by simp
  have 7: "\<forall>i<length ?cl. \<forall>j<length ?cl. \<forall>c. ?cl ! i = Some c \<and> ?cl ! j = Some c \<longrightarrow> i = j"
    by simp
  have 8: "distinct [0..<length pool]" by simp
  from de_rand_loop_layout [OF assms(1,2) run 1 2 3 4 5 6 7 8] assms(3) show ?thesis by simp
qed

text \<open>
  A run that returns: two slots of prominences 0.9 and 0.5, four candidates
  and the weights [0.5, 0, 0.5, 0] and [0, 0.5, 0, 0.5]. Slot 0 takes
  candidate 0 and slot 1 takes candidate 1. All the sums and quotients of
  this run are doubles, so no rounding takes place.
\<close>

lemma de_randomize_LP_two_slots:
  assumes "ieee_double fa"
  shows "de_randomize_LP example_learner fa first_positive [news_A, news_B, news_C, news_D]
           [[0.5, 0, 0.5, 0], [0, 0.5, 0, 0.5]] ''rand_1''
         = Inr [Some news_A, Some news_B]"
  by (simp add: de_randomize_LP_def example_learner_def new_learner_def base_config_def
      select_slot_def np_random_choice_def normalize_def first_positive_def list_index_def
      delete_at_def ieee_rnd [OF assms] ieee_fsum [OF assms] ieee_accepts [OF assms] dyadic_simps)

text \<open>
  Claim C1, at an input where the code departs from it: three slots of
  prominences 0.9, 0.8 and 0.7, four candidates and the weights
  [0.5, 0, 0.5, 0], [0, 0.5, 0, 0.5] and [0.5, 0.5, 0, 0], a feasible point of
  the relaxed problem (every slot and every candidate has total weight at most
  1), under the technique "rand_1". Slot 0 takes candidate 0 and slot 1 takes
  candidate 1, as in the run above; slot 2 is left with the weights [0, 0],
  whose sum is 0, and the division by that sum makes \<^verbatim>\<open>np.random.choice\<close>
  raise ValueError: no layout is returned.
\<close>

theorem de_randomize_LP_zero_sum:
  "ieee_double fa \<Longrightarrow>
   layout_slots three_slot_learner \<le> length [news_A, news_B, news_C, news_D]
   \<and> real_slot_promenances three_slot_learner = [0.9, 0.8, 0.7]
   \<and> de_randomize_LP three_slot_learner fa first_positive [news_A, news_B, news_C, news_D]
       [[0.5, 0, 0.5, 0], [0, 0.5, 0, 0.5], [0.5, 0.5, 0, 0]] ''rand_1''
     = Inl ValueError"
proof -
  assume fa: "ieee_double fa"
  show ?thesis
    by (simp add: de_randomize_LP_def three_slot_learner_def new_learner_def base_config_def
        select_slot_def np_random_choice_def normalize_def first_positive_def list_index_def
        delete_at_def ieee_rnd [OF fa] ieee_fsum [OF fa] ieee_accepts [OF fa] dyadic_simps)
qed

text \<open>Claim C1, the same input under the arithmetic that never rounds.\<close>

theorem de_randomize_LP_zero_sum_witness:
  "layout_slots three_slot_learner \<le> length [news_A, news_B, news_C, news_D]
   \<and> real_slot_promenances three_slot_learner = [0.9, 0.8, 0.7]
   \<and> de_randomize_LP three_slot_learner exact_arith first_positive
       [news_A, news_B, news_C, news_D]
       [[0.5, 0, 0.5, 0], [0, 0.5, 0, 0.5], [0.5, 0.5, 0, 0]] ''rand_1''
     = Inl ValueError"
  using de_randomize_LP_zero_sum [of exact_arith] ieee_double_exact by simp

section \<open>Competitors in the restricted ads allocation\<close>

text \<open>
  The constraint system of the restricted problem for two categories and two
  ads slots.
\<close>

lemma res_A_example:
  "res_A 2 2 =
     [[1, 0, 1, 0, 1, 0, 1, 0],
      [0, 1, 0, 1, 0, 1, 0, 1],
      [1, 1, 0, 0, 0, 0, 0, 0],
      [0, 0, 1, 1, 0, 0, 0, 0],
      [0, 0, 0, 0, 1, 1, 0, 0],
      [0, 0, 0, 0, 0, 0, 1, 1],
      [1, 1, 1001, 1001, 0, 0, 0, 0],
      [0, 0, 0, 0, 1, 1, 1001, 1001]]"
  by code_simp

lemma res_B_example: "res_B 2 2 = [1, 1, 2, 2, 2, 2, 1001, 1001]"
  by code_simp

lemma competitors_shape:
  "ads_slots competitors_learner = 2" "length (categories competitors_learner) = 2"
  "ads_real_slot_promenances competitors_learner = [0.9, 0.8]"
  by (simp_all add: competitors_learner_def new_learner_def base_config_def)

lemma competitors_bounds:
  "map (res_bound competitors_learner) [0, 1, 2, 3, 4, 5, 6, 7] = [1, 1, 0, 2, 0, 0, 1001, 1001]"
  by code_simp

lemma one_slot_feasible: "res_feasible competitors_learner one_slot_solution"
  by code_simp

lemma list8:
  assumes "length (y :: 'a list) = 8"
  obtains y0 y1 y2 y3 y4 y5 y6 y7 where "y = [y0, y1, y2, y3, y4, y5, y6, y7]"
proof -
  from assms have "y = [y ! 0, y ! 1, y ! 2, y ! 3, y ! 4, y ! 5, y ! 6, y ! 7]"
    by (intro nth_equalityI) (auto simp: nth_Cons' less_Suc_eq numeral_eq_Suc)
  then show thesis using that by blast
qed

text \<open>
  With the two excluding ads of category "a" as the whole inventory, every
  feasible assignment leaves all variables at 0 except those of the bucket of
  the two ads, of which at most one slot can be 1: the constraints of the
  problem do keep competitors apart.
\<close>

lemma feasible_values:
  assumes "res_feasible competitors_learner [y0, y1, y2, y3, y4, y5, y6, y7]"
  shows "y0 = 0 \<and> y1 = 0 \<and> y4 = 0 \<and> y5 = 0 \<and> y6 = 0 \<and> y7 = 0
         \<and> 0 \<le> y2 \<and> 0 \<le> y3 \<and> y2 + y3 \<le> 1"
proof -
  let ?y = "[y0, y1, y2, y3, y4, y5, y6, y7]"
  from assms have nn: "0 \<le> y0" "0 \<le> y1" "0 \<le> y2" "0 \<le> y3" "0 \<le> y4" "0 \<le> y5" "0 \<le> y6" "0 \<le> y7"
    by (simp_all add: res_feasible_def competitors_shape Let_def)
  from assms have rows: "\<forall>i<8. dot ?y (res_A 2 2 ! i) \<le> res_bound competitors_learner i"
    by (simp add: res_feasible_def competitors_shape Let_def list_all_iff)
  have r2: "dot ?y (res_A 2 2 ! 2) \<le> res_bound competitors_learner 2"
   and r4: "dot ?y (res_A 2 2 ! 4) \<le> res_bound competitors_learner 4"
   and r5: "dot ?y (res_A 2 2 ! 5) \<le> res_bound competitors_learner 5"
   and r6: "dot ?y (res_A 2 2 ! 6) \<le> res_bound competitors_learner 6"
    using rows by simp_all
  from competitors_bounds have b:
    "res_bound competitors_learner 2 = 0" "res_bound competitors_learner 4 = 0"
    "res_bound competitors_learner 5 = 0" "res_bound competitors_learner 6 = 1001"
    by simp_all
  from r2 r4 r5 r6 b have
    "y0 + y1 \<le> 0" "y4 + y5 \<le> 0" "y6 + y7 \<le> 0" "y0 + y1 + 1001 * y2 + 1001 * y3 \<le> 1001"
    by (simp_all add: res_A_example dot_def)
  with nn show ?thesis by auto
qed

lemma objective_value:
  "res_objective competitors_learner [1, q, 1, 1] [y0, y1, y2, y3, y4, y5, y6, y7]
   = 0.9 * y0 + 0.8 * y1 + 0.9 * q * y2 + 0.8 * q * y3 + 0.9 * y4 + 0.8 * y5 + 0.9 * y6 + 0.8 * y7"
  by (simp add: res_objective_def competitors_shape numeral_2_eq_2 algebra_simps)

text \<open>
  Whatever positive Beta sample \<open>q\<close> the bucket of the two ads receives, the
  assignment that fills slot 0 from that bucket and leaves slot 1 empty is
  the only optimal one: it is what the solver returns.
\<close>

lemma one_slot_unique:
  assumes "0 < q" "res_feasible competitors_learner y"
      and "res_objective competitors_learner [1, q, 1, 1] one_slot_solution
           \<le> res_objective competitors_learner [1, q, 1, 1] y"
  shows "y = one_slot_solution"
proof -
  from assms(2) have "length y = 8" by (simp add: res_feasible_def competitors_shape Let_def)
  then obtain y0 y1 y2 y3 y4 y5 y6 y7 where y: "y = [y0, y1, y2, y3, y4, y5, y6, y7]"
    by (rule list8)
  from feasible_values [OF assms(2) [unfolded y]] have
    z: "y0 = 0" "y1 = 0" "y4 = 0" "y5 = 0" "y6 = 0" "y7 = 0"
    and r: "0 \<le> y2" "0 \<le> y3" "y2 + y3 \<le> 1" by auto
  from assms(3) have "0.9 * q \<le> 0.9 * q * y2 + 0.8 * q * y3"
    by (simp add: y z objective_value one_slot_solution_def)
  with assms(1) have le: "0.9 \<le> 0.9 * real_of_int y2 + 0.8 * real_of_int y3"
    by (simp add: algebra_simps) (metis distrib_left mult.assoc mult.commute mult_le_cancel_left_pos)
  from r consider "y2 = 0 \<and> y3 = 0" | "y2 = 1 \<and> y3 = 0" | "y2 = 0 \<and> y3 = 1" by linarith
  then have "y2 = 1 \<and> y3 = 0"
  proof cases
    case 1 with le show ?thesis by simp
  next
    case 2 then show ?thesis .
  next
    case 3 with le show ?thesis by simp
  qed
  with y z show ?thesis by (simp add: one_slot_solution_def)
qed

lemma one_slot_optimal:
  assumes "0 < q"
  shows "res_optimal competitors_learner [1, q, 1, 1] one_slot_solution"
  unfolding res_optimal_def
proof (intro conjI allI impI)
  show "res_feasible competitors_learner one_slot_solution" by (rule one_slot_feasible)
next
  fix y assume f: "res_feasible competitors_learner y"
  then have "length y = 8" by (simp add: res_feasible_def competitors_shape Let_def)
  then obtain y0 y1 y2 y3 y4 y5 y6 y7 where y: "y = [y0, y1, y2, y3, y4, y5, y6, y7]"
    by (rule list8)
  from feasible_values [OF f [unfolded y]] have
    z: "y0 = 0" "y1 = 0" "y4 = 0" "y5 = 0" "y6 = 0" "y7 = 0"
    and r: "0 \<le> y2" "0 \<le> y3" "y2 + y3 \<le> 1" by auto
  from r consider "y2 = 0 \<and> y3 = 0" | "y2 = 1 \<and> y3 = 0" | "y2 = 0 \<and> y3 = 1" by linarith
  then show "res_objective competitors_learner [1, q, 1, 1] y
             \<le> res_objective competitors_learner [1, q, 1, 1] one_slot_solution"
    using assms by cases (simp_all add: y z objective_value one_slot_solution_def)
qed

text \<open>
  Claim C7, at an input where the code departs from it. The solver fills
  slot 0 from the bucket of the excluding ads of category "a" and leaves
  slot 1 empty. The loop that reads the solution finds no positive variable
  for slot 1, keeps the \<^verbatim>\<open>var_name\<close> of slot 0 and draws again from the same
  bucket; when the draw is the other ad, the layout shown under the
  "greedy" display holds both competitors.
\<close>

theorem competitors_both_shown:
  "fst (find_ads_best_allocation competitors_learner no_full_ilp (map Some one_slot_solution)
          pick_in_turn always_shown [news_A, news_B])
     = Inr [ad_e1, ad_e2]
   \<and> competing ad_e1 ad_e2"
  by code_simp

end
